theory Spec2Isabelle
  imports Main "HOL-Library.Multiset"
begin

section \<open>Strings and numbers of JavaScript\<close>

text \<open>
  A JavaScript string is a sequence of 16-bit code units. A code unit is kept as its high
  and its low byte; \<open>cu\<close> is the code unit of an ASCII (or Latin-1) character and
  \<open>ascii\<close> the string of a literal of the program text. Every string that can hold
  text from outside the program (ids, node text, handles, thrown messages, URLs, the JSON
  document) is such a sequence; the fixed ASCII texts the program itself writes (its
  messages to the user, numerals, file names) are kept as plain character lists.
\<close>

datatype code_unit = CodeUnit char char

type_synonym js_string = "code_unit list"

definition cu :: "char \<Rightarrow> code_unit" where
  "cu c = CodeUnit (CHR 0x00) c"

definition ascii :: "string \<Rightarrow> js_string" where
  "ascii s = map cu s"

text \<open>
  A JavaScript \<open>number\<close>. A finite number other than zero is kept as what
  \<open>Number::toString\<close> of ECMA-262 computes from it before it writes any character: the
  sign, the shortest decimal digits \<open>s\<close> that identify the number (a positive integer
  that does not end in 0) and the position \<open>n\<close> of the decimal point, so that
  \<open>Decimal neg s n\<close> is the number \<open>s * 10^(n - k)\<close> for the \<open>k\<close> digits of
  \<open>s\<close>, negated when \<open>neg\<close>. So 180 is \<open>Decimal False 18 3\<close>, 0.5 is
  \<open>Decimal False 5 0\<close> and \<open>10^21\<close> is \<open>Decimal False 1 22\<close>. The two zeros
  and the three values that are not finite are kept apart. Every finite number has exactly
  one such form; the type has more values than there are numbers (not every digit sequence
  is the shortest one of a 64-bit float), so a statement about all of them covers every
  number.
\<close>

datatype js_number = PosZero | NegZero | Decimal bool nat int | NaN | PosInfinity | NegInfinity

text \<open>
  The finite numbers: the zeros, and the decimals whose digits are in the normal form that
  \<open>Number::toString\<close> computes.
\<close>

fun isFinite :: "js_number \<Rightarrow> bool" where
  "isFinite PosZero = True"
| "isFinite NegZero = True"
| "isFinite (Decimal neg s n) = (0 < s \<and> s mod 10 \<noteq> 0)"
| "isFinite _ = False"

section \<open>Graph model (types/nodeTypes.ts and the React Flow node and edge types)\<close>

record XYPosition =
  pos_x :: js_number
  pos_y :: js_number

record TextNodeData =
  data_text :: js_string

text \<open>
  \<open>FlowNode = Node<TextNodeData>\<close>. The optional \<open>type\<close> is \<open>None\<close> when
  undefined; \<open>selected\<close> and \<open>dragging\<close> are the runtime flags React Flow keeps
  on a node.
\<close>

record FlowNode =
  node_id :: js_string
  node_type :: "js_string option"
  position :: XYPosition
  data :: TextNodeData
  selected :: "bool option"
  dragging :: "bool option"

text \<open>A handle id on an edge is \<open>string | null | undefined\<close>.\<close>

datatype handle = HUndefined | HNull | HStr js_string

record FlowEdge =
  edge_id :: js_string
  source :: js_string
  target :: js_string
  sourceHandle :: handle
  targetHandle :: handle
  edge_selected :: "bool option"
  animated :: "bool option"

text \<open>
  A proposed \<open>Connection\<close>: each of the four fields is \<open>string | null\<close>,
  with \<open>None\<close> for null.
\<close>

record Connection =
  conn_source :: "js_string option"
  conn_target :: "js_string option"
  conn_sourceHandle :: "js_string option"
  conn_targetHandle :: "js_string option"

section \<open>Flow validation (utils/validation.ts)\<close>

record ValidationResult =
  valid :: bool
  message :: string

definition validateFlow :: "FlowNode list \<Rightarrow> FlowEdge list \<Rightarrow> ValidationResult" where
  "validateFlow nodes edges =
     (if length nodes \<le> 1 then
        \<lparr>valid = True, message = ''Flow saved successfully!''\<rparr>
      else
        let nodesWithIncoming = set (map target edges);
            nodesWithoutIncoming =
              filter (\<lambda>node. node_id node \<notin> nodesWithIncoming) nodes
        in if length nodesWithoutIncoming > 1 then
             \<lparr>valid = False,
              message = ''Cannot save flow: More than one node has empty target handles.''\<rparr>
           else \<lparr>valid = True, message = ''Flow saved successfully!''\<rparr>)"

section \<open>Connection admission (isValidConnection in components/FlowBuilder.tsx)\<close>

text \<open>
  Strict equality \<open>e.sourceHandle === connection.sourceHandle\<close> between an edge's
  handle and a connection's handle: null equals null, a string equals the same string,
  and undefined equals neither.
\<close>

fun handle_strict_eq :: "handle \<Rightarrow> js_string option \<Rightarrow> bool" where
  "handle_strict_eq HNull None = True"
| "handle_strict_eq (HStr s) (Some t) = (s = t)"
| "handle_strict_eq _ _ = False"

text \<open>The callback closes over the current \<open>edges\<close>; here they are its first argument.\<close>

definition isValidConnection :: "FlowEdge list \<Rightarrow> Connection \<Rightarrow> bool" where
  "isValidConnection edges connection =
     (if conn_source connection = conn_target connection then False
      else
        let sourceAlreadyConnected =
              list_ex (\<lambda>e. Some (source e) = conn_source connection \<and>
                            handle_strict_eq (sourceHandle e) (conn_sourceHandle connection))
                edges
        in \<not> sourceAlreadyConnected)"

text \<open>
  The reading of "the proposal's (source node id, source handle) pair equals some existing
  edge's (source, sourceHandle) pair" that the admission rule is compared with.
\<close>

definition source_port_taken :: "FlowEdge list \<Rightarrow> Connection \<Rightarrow> bool" where
  "source_port_taken edges connection =
     (\<exists>e \<in> set edges. Some (source e) = conn_source connection \<and>
                       handle_strict_eq (sourceHandle e) (conn_sourceHandle connection))"

section \<open>Integers as text\<close>

definition digit_char :: "nat \<Rightarrow> char" where
  "digit_char d =
     (if d = 0 then CHR ''0'' else if d = 1 then CHR ''1'' else if d = 2 then CHR ''2''
      else if d = 3 then CHR ''3'' else if d = 4 then CHR ''4'' else if d = 5 then CHR ''5''
      else if d = 6 then CHR ''6'' else if d = 7 then CHR ''7'' else if d = 8 then CHR ''8''
      else CHR ''9'')"

fun nat_to_string :: "nat \<Rightarrow> string" where
  "nat_to_string n =
     (if n < 10 then [digit_char n]
      else nat_to_string (n div 10) @ [digit_char (n mod 10)])"

declare nat_to_string.simps [simp del]

text \<open>
  \<open>String(n)\<close> and \<open>`${n}`\<close> for an integer \<open>n\<close>: decimal digits, with a leading
  minus sign for a negative number. That is what \<open>Number::toString\<close> writes for the
  integers below \<open>10^21\<close> in absolute value (\<open>Number_toString_integer\<close> below);
  it is used for the parts of a date and for the node counter, which stay in that range.
  The results are ASCII text.
\<close>

definition number_to_string :: "int \<Rightarrow> string" where
  "number_to_string i =
     (if i < 0 then CHR ''-'' # nat_to_string (nat (- i)) else nat_to_string (nat i))"

text \<open>\<open>String.prototype.padStart(targetLength, padString)\<close>.\<close>

definition padStart :: "nat \<Rightarrow> string \<Rightarrow> string \<Rightarrow> string" where
  "padStart targetLength padString s =
     (if targetLength \<le> length s \<or> padString = [] then s
      else take (targetLength - length s)
             (concat (replicate (targetLength - length s) padString)) @ s)"

section \<open>Export file name (getTodayString in utils/exportFlow.ts)\<close>

text \<open>
  What \<open>getTodayString\<close> reads from \<open>new Date()\<close>: the local calendar year, the
  month counted from 0 and the day of the month.
\<close>

record Date =
  getFullYear :: int
  getMonth :: int
  getDate :: int

definition getTodayString :: "Date \<Rightarrow> string" where
  "getTodayString d =
     (let yyyy = getFullYear d;
          mm = padStart 2 ''0'' (number_to_string (getMonth d + 1));
          dd = padStart 2 ''0'' (number_to_string (getDate d))
      in number_to_string yyyy @ ''-'' @ mm @ ''-'' @ dd)"

text \<open>
  The layouts the file name is compared with: a number below 100 as two decimal digits and
  a number below 10000 as four.
\<close>

definition two_digits :: "nat \<Rightarrow> string" where
  "two_digits n = [digit_char (n div 10), digit_char (n mod 10)]"

definition four_digits :: "nat \<Rightarrow> string" where
  "four_digits n =
     [digit_char (n div 1000), digit_char (n div 100 mod 10),
      digit_char (n div 10 mod 10), digit_char (n mod 10)]"

section \<open>Image export (utils/exportImage.ts)\<close>

text \<open>
  A value that \<open>toPng\<close> can throw (reject with): an instance of \<open>Error\<close> with its
  message, or any other value, carrying the string under its \<open>message\<close> property when
  it has one.
\<close>

datatype js_thrown = ErrorInstance js_string | OtherValue "js_string option"

fun thrown_message :: "js_thrown \<Rightarrow> js_string option" where
  "thrown_message (ErrorInstance m) = Some m"
| "thrown_message (OtherValue m) = m"

record ImageExportResult =
  success :: bool
  error :: "js_string option"

text \<open>A download started through a temporary anchor element: file name and URL.\<close>

record AnchorDownload =
  download :: string
  href :: js_string

text \<open>
  The body of the \<open>try\<close> block. \<open>flowElement\<close> is the result of
  \<open>document.querySelector('.react-flow')\<close> (\<open>None\<close> for null) and \<open>toPng\<close> the
  rasterizer, which either throws or yields a data URL. The result is the returned object
  together with the downloads started.
\<close>

definition exportFlowAsImage_try ::
  "'el option \<Rightarrow> ('el \<Rightarrow> js_thrown + js_string) \<Rightarrow>
     js_thrown + (ImageExportResult \<times> AnchorDownload list)" where
  "exportFlowAsImage_try flowElement toPng =
     (case flowElement of
        None \<Rightarrow>
          Inr (\<lparr>success = False, error = Some (ascii ''Could not find the flow canvas element.'')\<rparr>, [])
      | Some el \<Rightarrow>
          (case toPng el of
             Inl err \<Rightarrow> Inl err
           | Inr dataUrl \<Rightarrow>
               Inr (\<lparr>success = True, error = None\<rparr>,
                    [\<lparr>download = ''chatbot-flow.png'', href = dataUrl\<rparr>])))"

text \<open>The \<open>catch\<close> block.\<close>

fun exportFlowAsImage_catch :: "js_thrown \<Rightarrow> ImageExportResult" where
  "exportFlowAsImage_catch (ErrorInstance m) = \<lparr>success = False, error = Some m\<rparr>"
| "exportFlowAsImage_catch (OtherValue v) =
     \<lparr>success = False, error = Some (ascii ''Unknown error during image export.'')\<rparr>"

text \<open>
  The whole function: \<open>Inl\<close> would be a rejected promise (an exception leaving the
  function), \<open>Inr\<close> is the resolved result.
\<close>

definition exportFlowAsImage ::
  "'el option \<Rightarrow> ('el \<Rightarrow> js_thrown + js_string) \<Rightarrow>
     js_thrown + (ImageExportResult \<times> AnchorDownload list)" where
  "exportFlowAsImage flowElement toPng =
     (case exportFlowAsImage_try flowElement toPng of
        Inl err \<Rightarrow> Inr (exportFlowAsImage_catch err, [])
      | Inr r \<Rightarrow> Inr r)"

text \<open>
  Two rasterizers for concrete runs: one that rejects with a given value and one that
  yields a given data URL.
\<close>

definition toPng_rejects :: "js_thrown \<Rightarrow> 'el \<Rightarrow> js_thrown + js_string" where
  "toPng_rejects err el = Inl err"

definition toPng_yields :: "js_string \<Rightarrow> 'el \<Rightarrow> js_thrown + js_string" where
  "toPng_yields dataUrl el = Inr dataUrl"


section \<open>Canvas state (components/FlowBuilder.tsx)\<close>



text \<open>The starter node, at (180, 180).\<close>

definition initialNodes :: "FlowNode list" where
  "initialNodes =
     [\<lparr>node_id = ascii ''node_0'', node_type = Some (ascii ''textNode''),
       position = \<lparr>pos_x = Decimal False 18 3, pos_y = Decimal False 18 3\<rparr>,
       data = \<lparr>data_text = ascii ''Hello! How can I help you today?''\<rparr>,
       selected = None, dragging = None\<rparr>]"

definition initialEdges :: "FlowEdge list" where
  "initialEdges = []"


















section \<open>Numbers as text (\<open>Number::toString\<close>)\<close>

text \<open>
  \<open>Number::toString(x)\<close> of ECMA-262 for radix 10. With \<open>s\<close> the shortest digits
  of a positive \<open>x\<close>, \<open>k\<close> their count and \<open>n\<close> the position of the decimal
  point: the digits followed by zeros when \<open>k \<le> n \<le> 21\<close>; the digits with a point
  after the first \<open>n\<close> when \<open>0 < n \<le> 21\<close>; \<open>0.\<close>, zeros and the digits when
  \<open>-6 < n \<le> 0\<close>; and otherwise the exponent notation, the first digit, a point and
  the other digits when there are any, \<open>e\<close>, the sign of \<open>n - 1\<close> and its absolute
  value. Both zeros are written \<open>0\<close>, and a negative number is written as a minus sign
  and the text of its negation. The results are ASCII text.
\<close>

definition exponent_text :: "int \<Rightarrow> string" where
  "exponent_text n =
     ''e'' @ (if n - 1 < 0 then ''-'' else ''+'') @ nat_to_string (nat \<bar>n - 1\<bar>)"

definition decimal_text :: "nat \<Rightarrow> int \<Rightarrow> string" where
  "decimal_text s n =
     (let ds = nat_to_string s;
          k = int (length ds)
      in if k \<le> n \<and> n \<le> 21 then ds @ replicate (nat (n - k)) CHR ''0''
         else if 0 < n \<and> n \<le> 21 then take (nat n) ds @ ''.'' @ drop (nat n) ds
         else if - 6 < n \<and> n \<le> 0 then ''0.'' @ replicate (nat (- n)) CHR ''0'' @ ds
         else if k = 1 then ds @ exponent_text n
         else take 1 ds @ ''.'' @ drop 1 ds @ exponent_text n)"

fun Number_toString :: "js_number \<Rightarrow> string" where
  "Number_toString NaN = ''NaN''"
| "Number_toString PosZero = ''0''"
| "Number_toString NegZero = ''0''"
| "Number_toString (Decimal neg s n) =
     (if neg then ''-'' @ decimal_text s n else decimal_text s n)"
| "Number_toString PosInfinity = ''Infinity''"
| "Number_toString NegInfinity = ''-Infinity''"

section \<open>JavaScript values and JSON.stringify\<close>

text \<open>
  The JavaScript values the export builds. An object is the list of its own properties in
  enumeration order, which for the keys used here (none is an array index) is the order in
  which the object literal lists them.
\<close>

datatype js_value =
    JSUndefined
  | JSNull
  | JSBoolean bool
  | JSNumber js_number
  | JSString js_string
  | JSArray "js_value list"
  | JSObject "(js_string \<times> js_value) list"

text \<open>
  The code units \<open>QuoteJSONString\<close> of ECMA-262 tells apart: the control characters
  below U+0020, the leading surrogates U+D800..U+DBFF and the trailing surrogates
  U+DC00..U+DFFF.
\<close>

fun is_control :: "code_unit \<Rightarrow> bool" where
  "is_control (CodeUnit h l) \<longleftrightarrow> h = CHR 0x00 \<and> (of_char l :: nat) < 32"

fun is_lead_surrogate :: "code_unit \<Rightarrow> bool" where
  "is_lead_surrogate (CodeUnit h l) \<longleftrightarrow> (216::nat) \<le> of_char h \<and> (of_char h :: nat) \<le> 219"

fun is_trail_surrogate :: "code_unit \<Rightarrow> bool" where
  "is_trail_surrogate (CodeUnit h l) \<longleftrightarrow> (220::nat) \<le> of_char h \<and> (of_char h :: nat) \<le> 223"

definition hex_digit_char :: "nat \<Rightarrow> char" where
  "hex_digit_char d =
     (if d < 10 then digit_char d
      else if d = 10 then CHR ''a'' else if d = 11 then CHR ''b'' else if d = 12 then CHR ''c''
      else if d = 13 then CHR ''d'' else if d = 14 then CHR ''e'' else CHR ''f'')"

text \<open>\<open>UnicodeEscape\<close>: \<open>\u\<close> and the code unit as four lower-case hexadecimal digits.\<close>

fun unicodeEscape :: "code_unit \<Rightarrow> js_string" where
  "unicodeEscape (CodeUnit h l) =
     ascii [CHR 0x5C, CHR ''u'',
            hex_digit_char (of_char h div 16), hex_digit_char (of_char h mod 16),
            hex_digit_char (of_char l div 16), hex_digit_char (of_char l mod 16)]"

text \<open>
  \<open>QuoteJSONString\<close>, code point by code point: a leading surrogate followed by a
  trailing one is a code point of its own and is written as it is; of the other code units,
  seven have a two-character escape, the remaining control characters and the surrogates
  that stand alone are written as \<open>UnicodeEscape\<close>, and every other one as it is.
\<close>

definition quote_unit :: "code_unit \<Rightarrow> js_string" where
  "quote_unit c =
     (if c = cu (CHR 0x08) then ascii [CHR 0x5C, CHR ''b'']
      else if c = cu (CHR 0x09) then ascii [CHR 0x5C, CHR ''t'']
      else if c = cu (CHR 0x0A) then ascii [CHR 0x5C, CHR ''n'']
      else if c = cu (CHR 0x0C) then ascii [CHR 0x5C, CHR ''f'']
      else if c = cu (CHR 0x0D) then ascii [CHR 0x5C, CHR ''r'']
      else if c = cu (CHR 0x22) then ascii [CHR 0x5C, CHR 0x22]
      else if c = cu (CHR 0x5C) then ascii [CHR 0x5C, CHR 0x5C]
      else if is_control c \<or> is_lead_surrogate c \<or> is_trail_surrogate c then unicodeEscape c
      else [c])"

fun quote_units :: "js_string \<Rightarrow> js_string" where
  "quote_units [] = []"
| "quote_units [c] = quote_unit c"
| "quote_units (c # d # cs) =
     (if is_lead_surrogate c \<and> is_trail_surrogate d then c # d # quote_units cs
      else quote_unit c @ quote_units (d # cs))"

definition quoteJSONString :: "js_string \<Rightarrow> js_string" where
  "quoteJSONString s = cu (CHR 0x22) # quote_units s @ [cu (CHR 0x22)]"

text \<open>The list of member texts joined by a separator.\<close>

fun join :: "js_string \<Rightarrow> js_string list \<Rightarrow> js_string" where
  "join sep [] = []"
| "join sep [s] = s"
| "join sep (s # t # ss) = s @ sep @ join sep (t # ss)"

text \<open>
  \<open>SerializeJSONProperty\<close>, \<open>SerializeJSONArray\<close> and \<open>SerializeJSONObject\<close> of
  ECMA-262, without replacer and \<open>toJSON\<close>: \<open>gap\<close> is the indentation unit and the
  second argument the current indentation. \<open>None\<close> is the result undefined, which
  drops a property from an object and prints as \<open>null\<close> in an array. A number is
  written by \<open>Number::toString\<close> when it is finite and as \<open>null\<close> otherwise.
\<close>

fun serializeJSONProperty :: "js_string \<Rightarrow> js_string \<Rightarrow> js_value \<Rightarrow> js_string option"
  and serializeJSONArray_elements :: "js_string \<Rightarrow> js_string \<Rightarrow> js_value list \<Rightarrow> js_string list"
  and serializeJSONObject_members ::
    "js_string \<Rightarrow> js_string \<Rightarrow> (js_string \<times> js_value) list \<Rightarrow> js_string list"
where
  "serializeJSONProperty gap indent JSUndefined = None"
| "serializeJSONProperty gap indent JSNull = Some (ascii ''null'')"
| "serializeJSONProperty gap indent (JSBoolean b) =
     Some (if b then ascii ''true'' else ascii ''false'')"
| "serializeJSONProperty gap indent (JSNumber n) =
     Some (if isFinite n then ascii (Number_toString n) else ascii ''null'')"
| "serializeJSONProperty gap indent (JSString s) = Some (quoteJSONString s)"
| "serializeJSONProperty gap stepback (JSArray vs) =
     (let indent = stepback @ gap;
          partial = serializeJSONArray_elements gap indent vs
      in Some (if partial = [] then ascii ''[]''
               else if gap = [] then ascii ''['' @ join (ascii '','') partial @ ascii '']''
               else ascii ''['' @ [cu (CHR 0x0A)] @ indent
                      @ join (ascii '','' @ [cu (CHR 0x0A)] @ indent) partial
                      @ [cu (CHR 0x0A)] @ stepback @ ascii '']''))"
| "serializeJSONProperty gap stepback (JSObject kvs) =
     (let indent = stepback @ gap;
          partial = serializeJSONObject_members gap indent kvs
      in Some (if partial = [] then ascii ''{}''
               else if gap = [] then ascii ''{'' @ join (ascii '','') partial @ ascii ''}''
               else ascii ''{'' @ [cu (CHR 0x0A)] @ indent
                      @ join (ascii '','' @ [cu (CHR 0x0A)] @ indent) partial
                      @ [cu (CHR 0x0A)] @ stepback @ ascii ''}''))"
| "serializeJSONArray_elements gap indent [] = []"
| "serializeJSONArray_elements gap indent (v # vs) =
     (case serializeJSONProperty gap indent v of None \<Rightarrow> ascii ''null'' | Some strP \<Rightarrow> strP)
       # serializeJSONArray_elements gap indent vs"
| "serializeJSONObject_members gap indent [] = []"
| "serializeJSONObject_members gap indent ((P, v) # kvs) =
     (case serializeJSONProperty gap indent v of
        None \<Rightarrow> serializeJSONObject_members gap indent kvs
      | Some strP \<Rightarrow>
          (quoteJSONString P @ ascii '':'' @ (if gap = [] then [] else ascii '' '') @ strP)
            # serializeJSONObject_members gap indent kvs)"

text \<open>\<open>JSON.stringify(value, null, space)\<close> for a numeric \<open>space\<close>.\<close>

definition JSON_stringify :: "js_value \<Rightarrow> nat \<Rightarrow> js_string option" where
  "JSON_stringify v space =
     serializeJSONProperty (replicate (min space 10) (cu (CHR '' ''))) [] v"

section \<open>JSON export (utils/exportFlow.ts)\<close>

text \<open>
  \<open>triggerDownload\<close> hands content, file name and MIME type to the browser; the model
  returns what it was handed.
\<close>

record FileDownload =
  dl_content :: js_string
  dl_filename :: string
  dl_mimeType :: string

definition triggerDownload :: "js_string \<Rightarrow> string \<Rightarrow> string \<Rightarrow> FileDownload" where
  "triggerDownload content filename mimeType =
     \<lparr>dl_content = content, dl_filename = filename, dl_mimeType = mimeType\<rparr>"

definition cleanNode :: "FlowNode \<Rightarrow> js_value" where
  "cleanNode node =
     JSObject
       [(ascii ''id'', JSString (node_id node)),
        (ascii ''type'', (case node_type node of None \<Rightarrow> JSUndefined | Some t \<Rightarrow> JSString t)),
        (ascii ''position'',
           JSObject [(ascii ''x'', JSNumber (pos_x (position node))),
                     (ascii ''y'', JSNumber (pos_y (position node)))]),
        (ascii ''data'', JSObject [(ascii ''text'', JSString (data_text (data node)))])]"

definition cleanEdge :: "FlowEdge \<Rightarrow> js_value" where
  "cleanEdge edge =
     JSObject
       [(ascii ''id'', JSString (edge_id edge)),
        (ascii ''source'', JSString (source edge)),
        (ascii ''target'', JSString (target edge))]"

definition flowData :: "FlowNode list \<Rightarrow> FlowEdge list \<Rightarrow> js_value" where
  "flowData nodes edges =
     (let cleanNodes = map cleanNode nodes;
          cleanEdges = map cleanEdge edges
      in JSObject [(ascii ''nodes'', JSArray cleanNodes), (ascii ''edges'', JSArray cleanEdges)])"

definition exportFlowAsJSON :: "FlowNode list \<Rightarrow> FlowEdge list \<Rightarrow> Date \<Rightarrow> FileDownload" where
  "exportFlowAsJSON nodes edges today =
     (let jsonString =
            (case JSON_stringify (flowData nodes edges) 2 of
               Some str \<Rightarrow> str | None \<Rightarrow> ascii ''undefined'')
      in triggerDownload jsonString
           (''chatbot-flow-'' @ getTodayString today @ ''.json'')
           ''application/json'')"

section \<open>JSON.parse\<close>

text \<open>
  A reader for JSON text: objects, arrays, strings with their escapes, numbers with
  fraction and exponent, \<open>true\<close>, \<open>false\<close> and \<open>null\<close>, with optional white
  space. Malformed text gives \<open>None\<close>.
\<close>

definition is_ws :: "code_unit \<Rightarrow> bool" where
  "is_ws c \<longleftrightarrow> c = cu (CHR '' '') \<or> c = cu (CHR 0x09) \<or> c = cu (CHR 0x0A) \<or> c = cu (CHR 0x0D)"

definition skip_ws :: "js_string \<Rightarrow> js_string" where
  "skip_ws s = dropWhile is_ws s"

fun digit_val :: "code_unit \<Rightarrow> nat option" where
  "digit_val (CodeUnit h l) =
     (if h = CHR 0x00 \<and> (48::nat) \<le> of_char l \<and> (of_char l :: nat) \<le> 57
      then Some (of_char l - 48) else None)"

fun hex_val :: "code_unit \<Rightarrow> nat option" where
  "hex_val (CodeUnit h l) =
     (if h \<noteq> CHR 0x00 then None
      else if (48::nat) \<le> of_char l \<and> (of_char l :: nat) \<le> 57 then Some (of_char l - 48)
      else if (97::nat) \<le> of_char l \<and> (of_char l :: nat) \<le> 102 then Some (of_char l - 87)
      else if (65::nat) \<le> of_char l \<and> (of_char l :: nat) \<le> 70 then Some (of_char l - 55)
      else None)"

text \<open>
  A numeral is an optional minus sign, the integer digits (a single 0, or digits that do
  not start with 0), an optional fraction (a point and at least one digit) and an optional
  exponent (\<open>e\<close> or \<open>E\<close>, an optional sign and at least one digit).
\<close>

definition is_digit :: "code_unit \<Rightarrow> bool" where
  "is_digit c \<longleftrightarrow> digit_val c \<noteq> None"

definition digits_value :: "js_string \<Rightarrow> nat" where
  "digits_value ds =
     foldl (\<lambda>acc c. acc * 10 + (case digit_val c of None \<Rightarrow> 0 | Some d \<Rightarrow> d)) 0 ds"

definition parse_sign :: "js_string \<Rightarrow> bool \<times> js_string" where
  "parse_sign s =
     (case s of
        [] \<Rightarrow> (False, s)
      | c # cs \<Rightarrow> if c = cu (CHR ''-'') then (True, cs) else (False, s))"

definition parse_int :: "js_string \<Rightarrow> (js_string \<times> js_string) option" where
  "parse_int s =
     (let ds = takeWhile is_digit s
      in if ds = [] \<or> (hd ds = cu (CHR ''0'') \<and> 1 < length ds) then None
         else Some (ds, dropWhile is_digit s))"

definition parse_fraction :: "js_string \<Rightarrow> (js_string \<times> js_string) option" where
  "parse_fraction s =
     (case s of
        [] \<Rightarrow> Some ([], s)
      | c # cs \<Rightarrow>
          if c = cu (CHR ''.'') then
            (if takeWhile is_digit cs = [] then None
             else Some (takeWhile is_digit cs, dropWhile is_digit cs))
          else Some ([], s))"

definition parse_exponent :: "js_string \<Rightarrow> (int \<times> js_string) option" where
  "parse_exponent s =
     (case s of
        [] \<Rightarrow> Some (0, s)
      | c # cs \<Rightarrow>
          if c = cu (CHR ''e'') \<or> c = cu (CHR ''E'') then
            (let (negative, s') =
                   (case cs of
                      [] \<Rightarrow> (False, cs)
                    | d # ds \<Rightarrow>
                        if d = cu (CHR ''-'') then (True, ds)
                        else if d = cu (CHR ''+'') then (False, ds)
                        else (False, cs))
             in if takeWhile is_digit s' = [] then None
                else Some ((if negative then - int (digits_value (takeWhile is_digit s'))
                            else int (digits_value (takeWhile is_digit s'))),
                           dropWhile is_digit s'))
          else Some (0, s))"

text \<open>
  The number a numeral denotes, \<open>m * 10^e\<close> with a sign, in the form of
  \<open>js_number\<close>: a zero keeps its sign; otherwise the zeros at the end of \<open>m\<close> go
  into the position of the point. For a numeral that \<open>Number::toString\<close> wrote this is
  the number that was written, its digits being the ones that identify it; the rounding of
  other numerals to the nearest 64-bit float (and to infinity or zero beyond the range) is
  not modelled.
\<close>

fun strip_zeros :: "nat \<Rightarrow> nat \<times> nat" where
  "strip_zeros m =
     (if m = 0 \<or> m mod 10 \<noteq> 0 then (m, 0)
      else (case strip_zeros (m div 10) of (s, t) \<Rightarrow> (s, Suc t)))"

declare strip_zeros.simps [simp del]

definition number_of :: "bool \<Rightarrow> nat \<Rightarrow> int \<Rightarrow> js_number" where
  "number_of negative m e =
     (if m = 0 then (if negative then NegZero else PosZero)
      else case strip_zeros m of
             (s, t) \<Rightarrow> Decimal negative s (int (length (nat_to_string s)) + int t + e))"

definition parse_number :: "js_string \<Rightarrow> (js_value \<times> js_string) option" where
  "parse_number s =
     (case parse_sign s of
        (negative, s1) \<Rightarrow>
          (case parse_int s1 of
             None \<Rightarrow> None
           | Some (int_digits, s2) \<Rightarrow>
               (case parse_fraction s2 of
                  None \<Rightarrow> None
                | Some (frac_digits, s3) \<Rightarrow>
                    (case parse_exponent s3 of
                       None \<Rightarrow> None
                     | Some (e, s4) \<Rightarrow>
                         Some (JSNumber (number_of negative
                                 (digits_value (int_digits @ frac_digits))
                                 (e - int (length frac_digits))),
                               s4)))))"

text \<open>The escapes of a JSON string: the two-character ones and \<open>\uXXXX\<close>.\<close>

definition unescape :: "code_unit \<Rightarrow> code_unit option" where
  "unescape e =
     (if e = cu (CHR 0x22) then Some (cu (CHR 0x22))
      else if e = cu (CHR 0x5C) then Some (cu (CHR 0x5C))
      else if e = cu (CHR ''/'') then Some (cu (CHR ''/''))
      else if e = cu (CHR ''b'') then Some (cu (CHR 0x08))
      else if e = cu (CHR ''f'') then Some (cu (CHR 0x0C))
      else if e = cu (CHR ''n'') then Some (cu (CHR 0x0A))
      else if e = cu (CHR ''r'') then Some (cu (CHR 0x0D))
      else if e = cu (CHR ''t'') then Some (cu (CHR 0x09))
      else None)"

definition hex4 :: "code_unit \<Rightarrow> code_unit \<Rightarrow> code_unit \<Rightarrow> code_unit \<Rightarrow> code_unit option" where
  "hex4 a b c d =
     (case (hex_val a, hex_val b, hex_val c, hex_val d) of
        (Some p, Some q, Some r, Some s) \<Rightarrow>
          Some (CodeUnit (char_of (p * 16 + q)) (char_of (r * 16 + s)))
      | _ \<Rightarrow> None)"

fun parse_chars :: "js_string \<Rightarrow> (js_string \<times> js_string) option" where
  "parse_chars [] = None"
| "parse_chars (c # cs) =
     (if c = cu (CHR 0x22) then Some ([], cs)
      else if c = cu (CHR 0x5C) then
        (case cs of
           [] \<Rightarrow> None
         | e # rest \<Rightarrow>
             if e = cu (CHR ''u'') then
               (case rest of
                  h1 # h2 # h3 # h4 # rest' \<Rightarrow>
                    (case hex4 h1 h2 h3 h4 of
                       None \<Rightarrow> None
                     | Some ch \<Rightarrow> map_option (\<lambda>(str, r). (ch # str, r)) (parse_chars rest'))
                | _ \<Rightarrow> None)
             else
               (case unescape e of
                  None \<Rightarrow> None
                | Some ch \<Rightarrow> map_option (\<lambda>(str, r). (ch # str, r)) (parse_chars rest)))
      else if is_control c then None
      else map_option (\<lambda>(str, r). (c # str, r)) (parse_chars cs))"

text \<open>
  Defining a property on the object under construction: a repeated key overwrites the
  earlier value and keeps its place.
\<close>

fun obj_put ::
  "(js_string \<times> js_value) list \<Rightarrow> js_string \<Rightarrow> js_value \<Rightarrow> (js_string \<times> js_value) list" where
  "obj_put [] k v = [(k, v)]"
| "obj_put ((k', v') # kvs) k v =
     (if k' = k then (k', v) # kvs else (k', v') # obj_put kvs k v)"

definition object_of :: "(js_string \<times> js_value) list \<Rightarrow> (js_string \<times> js_value) list" where
  "object_of kvs = foldl (\<lambda>acc (k, v). obj_put acc k v) [] kvs"

text \<open>
  The recursive descent, with fuel for the nesting: \<open>JSON_parse\<close> starts it with more
  fuel than the text has code units.
\<close>

fun parse_value :: "nat \<Rightarrow> js_string \<Rightarrow> (js_value \<times> js_string) option"
  and parse_elements :: "nat \<Rightarrow> js_string \<Rightarrow> (js_value list \<times> js_string) option"
  and parse_members :: "nat \<Rightarrow> js_string \<Rightarrow> ((js_string \<times> js_value) list \<times> js_string) option"
where
  "parse_value 0 s = None"
| "parse_value (Suc fuel) s =
     (case skip_ws s of
        [] \<Rightarrow> None
      | c # cs \<Rightarrow>
          if c = cu (CHR ''{'') then
            (case skip_ws cs of
               [] \<Rightarrow> None
             | c' # cs' \<Rightarrow>
                 if c' = cu (CHR ''}'') then Some (JSObject [], cs')
                 else map_option (\<lambda>(kvs, r). (JSObject (object_of kvs), r)) (parse_members fuel cs))
          else if c = cu (CHR ''['') then
            (case skip_ws cs of
               [] \<Rightarrow> None
             | c' # cs' \<Rightarrow>
                 if c' = cu (CHR '']'') then Some (JSArray [], cs')
                 else map_option (\<lambda>(vs, r). (JSArray vs, r)) (parse_elements fuel cs))
          else if c = cu (CHR 0x22) then map_option (\<lambda>(str, r). (JSString str, r)) (parse_chars cs)
          else if c = cu (CHR ''-'') \<or> is_digit c then parse_number (c # cs)
          else if take 4 (c # cs) = ascii ''true'' then Some (JSBoolean True, drop 4 (c # cs))
          else if take 5 (c # cs) = ascii ''false'' then Some (JSBoolean False, drop 5 (c # cs))
          else if take 4 (c # cs) = ascii ''null'' then Some (JSNull, drop 4 (c # cs))
          else None)"
| "parse_elements 0 s = None"
| "parse_elements (Suc fuel) s =
     (case parse_value fuel s of
        None \<Rightarrow> None
      | Some (v, r) \<Rightarrow>
          (case skip_ws r of
             [] \<Rightarrow> None
           | c # cs \<Rightarrow>
               if c = cu (CHR '','') then map_option (\<lambda>(vs, r'). (v # vs, r')) (parse_elements fuel cs)
               else if c = cu (CHR '']'') then Some ([v], cs)
               else None))"
| "parse_members 0 s = None"
| "parse_members (Suc fuel) s =
     (case skip_ws s of
        [] \<Rightarrow> None
      | q # s1 \<Rightarrow>
          if q \<noteq> cu (CHR 0x22) then None
          else
            (case parse_chars s1 of
               None \<Rightarrow> None
             | Some (k, s2) \<Rightarrow>
                 (case skip_ws s2 of
                    [] \<Rightarrow> None
                  | colon # s3 \<Rightarrow>
                      if colon \<noteq> cu (CHR '':'') then None
                      else
                        (case parse_value fuel s3 of
                           None \<Rightarrow> None
                         | Some (v, r) \<Rightarrow>
                             (case skip_ws r of
                                [] \<Rightarrow> None
                              | c # cs \<Rightarrow>
                                  if c = cu (CHR '','') then
                                    map_option (\<lambda>(kvs, r'). ((k, v) # kvs, r'))
                                      (parse_members fuel cs)
                                  else if c = cu (CHR ''}'') then Some ([(k, v)], cs)
                                  else None)))))"

definition JSON_parse :: "js_string \<Rightarrow> js_value option" where
  "JSON_parse s =
     (case parse_value (Suc (length s)) s of
        None \<Rightarrow> None
      | Some (v, r) \<Rightarrow> if skip_ws r = [] then Some v else None)"

section \<open>What the export document reads back as\<close>

text \<open>
  The value \<open>JSON.parse\<close> returns for the text \<open>JSON.stringify\<close> wrote for a
  value: a non-finite number and an undefined array element come back as \<open>null\<close>, a
  property whose value is undefined is gone, the number \<open>-0\<close>, which is written
  \<open>0\<close>, comes back as \<open>0\<close>, and everything else is as it was.
\<close>

fun plain_zero :: "js_number \<Rightarrow> js_number" where
  "plain_zero NegZero = PosZero"
| "plain_zero n = n"

fun json_of :: "js_value \<Rightarrow> js_value"
  and json_of_elements :: "js_value list \<Rightarrow> js_value list"
  and json_of_members :: "(js_string \<times> js_value) list \<Rightarrow> (js_string \<times> js_value) list"
where
  "json_of JSUndefined = JSNull"
| "json_of JSNull = JSNull"
| "json_of (JSBoolean b) = JSBoolean b"
| "json_of (JSNumber n) = (if isFinite n then JSNumber (plain_zero n) else JSNull)"
| "json_of (JSString s) = JSString s"
| "json_of (JSArray vs) = JSArray (json_of_elements vs)"
| "json_of (JSObject kvs) = JSObject (json_of_members kvs)"
| "json_of_elements [] = []"
| "json_of_elements (v # vs) = json_of v # json_of_elements vs"
| "json_of_members [] = []"
| "json_of_members ((k, v) # kvs) =
     (if v = JSUndefined then json_of_members kvs else (k, json_of v) # json_of_members kvs)"

text \<open>
  The objects for which that holds: in every object, the properties that are written have
  pairwise different keys.
\<close>

fun distinct_keys :: "js_value \<Rightarrow> bool"
  and distinct_keys_elements :: "js_value list \<Rightarrow> bool"
  and distinct_keys_members :: "(js_string \<times> js_value) list \<Rightarrow> bool"
where
  "distinct_keys (JSArray vs) = distinct_keys_elements vs"
| "distinct_keys (JSObject kvs) =
     (distinct (map fst (json_of_members kvs)) \<and> distinct_keys_members kvs)"
| "distinct_keys v = True"
| "distinct_keys_elements [] = True"
| "distinct_keys_elements (v # vs) = (distinct_keys v \<and> distinct_keys_elements vs)"
| "distinct_keys_members [] = True"
| "distinct_keys_members ((k, v) # kvs) = (distinct_keys v \<and> distinct_keys_members kvs)"

text \<open>Fuel that suffices to read the text of a value back; it is below the text's length.\<close>

fun need :: "js_value \<Rightarrow> nat"
  and need_elements :: "js_value list \<Rightarrow> nat"
  and need_members :: "(js_string \<times> js_value) list \<Rightarrow> nat"
where
  "need JSUndefined = 1"
| "need JSNull = 1"
| "need (JSBoolean b) = 1"
| "need (JSNumber n) = 1"
| "need (JSString s) = 1"
| "need (JSArray vs) = Suc (need_elements vs)"
| "need (JSObject kvs) = Suc (need_members kvs)"
| "need_elements [] = 0"
| "need_elements (v # vs) = Suc (need v + need_elements vs)"
| "need_members [] = 0"
| "need_members ((k, v) # kvs) =
     (if v = JSUndefined then need_members kvs else Suc (need v + need_members kvs))"

text \<open>
  Two conditions on the text around a value: indentation consists of spaces, and what
  follows a number cannot be taken for more of the number.
\<close>

definition all_spaces :: "js_string \<Rightarrow> bool" where
  "all_spaces s \<longleftrightarrow> set s \<subseteq> {cu (CHR '' '')}"

definition number_end :: "js_string \<Rightarrow> bool" where
  "number_end rest \<longleftrightarrow>
     (case rest of
        [] \<Rightarrow> True
      | c # cs \<Rightarrow> \<not> is_digit c \<and> c \<noteq> cu (CHR ''.'') \<and> c \<noteq> cu (CHR ''e'') \<and> c \<noteq> cu (CHR ''E''))"

section \<open>The export document as the specification describes it\<close>

text \<open>
  The snapshot of a node and of an edge in the re-read document: \<open>id\<close>, \<open>type\<close>
  (when the node has one), \<open>position\<close> with \<open>x\<close> and \<open>y\<close>, and \<open>data\<close>
  with \<open>text\<close> for a node; \<open>id\<close>, \<open>source\<close> and \<open>target\<close> for an edge;
  nothing else. The coordinates are the node's, a \<open>-0\<close> being read as \<open>0\<close> (the two
  are equal numbers to \<open>===\<close>).
\<close>

definition node_snapshot :: "FlowNode \<Rightarrow> js_value" where
  "node_snapshot node =
     JSObject
       ([(ascii ''id'', JSString (node_id node))]
        @ (case node_type node of None \<Rightarrow> [] | Some t \<Rightarrow> [(ascii ''type'', JSString t)])
        @ [(ascii ''position'',
              JSObject [(ascii ''x'', JSNumber (plain_zero (pos_x (position node)))),
                        (ascii ''y'', JSNumber (plain_zero (pos_y (position node))))]),
           (ascii ''data'', JSObject [(ascii ''text'', JSString (data_text (data node)))])])"

definition edge_snapshot :: "FlowEdge \<Rightarrow> js_value" where
  "edge_snapshot edge =
     JSObject
       [(ascii ''id'', JSString (edge_id edge)),
        (ascii ''source'', JSString (source edge)),
        (ascii ''target'', JSString (target edge))]"

fun object_keys :: "js_value \<Rightarrow> js_string list" where
  "object_keys (JSObject kvs) = map fst kvs"
| "object_keys _ = []"

text \<open>
  The layout of the document text: two further spaces of indentation per nesting level,
  \<open>nodes\<close> before \<open>edges\<close>, the fields of a node in the order \<open>id\<close>,
  \<open>type\<close>, \<open>position\<close>, \<open>data\<close> and those of an edge in the order \<open>id\<close>,
  \<open>source\<close>, \<open>target\<close>, one field per line, a colon and one space after each key.
  \<open>dq\<close> puts a key between double quotes.
\<close>

definition dq :: "string \<Rightarrow> js_string" where
  "dq s = [cu (CHR 0x22)] @ ascii s @ [cu (CHR 0x22)]"

definition number_layout :: "js_number \<Rightarrow> js_string" where
  "number_layout n = (if isFinite n then ascii (Number_toString n) else ascii ''null'')"

definition node_layout :: "FlowNode \<Rightarrow> js_string" where
  "node_layout node =
     ascii ''{'' @ [cu (CHR 0x0A)]
     @ ascii ''      '' @ dq ''id'' @ ascii '': '' @ quoteJSONString (node_id node)
       @ ascii '','' @ [cu (CHR 0x0A)]
     @ (case node_type node of
          None \<Rightarrow> []
        | Some t \<Rightarrow>
            ascii ''      '' @ dq ''type'' @ ascii '': '' @ quoteJSONString t
              @ ascii '','' @ [cu (CHR 0x0A)])
     @ ascii ''      '' @ dq ''position'' @ ascii '': {'' @ [cu (CHR 0x0A)]
     @ ascii ''        '' @ dq ''x'' @ ascii '': '' @ number_layout (pos_x (position node))
       @ ascii '','' @ [cu (CHR 0x0A)]
     @ ascii ''        '' @ dq ''y'' @ ascii '': '' @ number_layout (pos_y (position node))
       @ [cu (CHR 0x0A)]
     @ ascii ''      },'' @ [cu (CHR 0x0A)]
     @ ascii ''      '' @ dq ''data'' @ ascii '': {'' @ [cu (CHR 0x0A)]
     @ ascii ''        '' @ dq ''text'' @ ascii '': '' @ quoteJSONString (data_text (data node))
       @ [cu (CHR 0x0A)]
     @ ascii ''      }'' @ [cu (CHR 0x0A)]
     @ ascii ''    }''"

definition edge_layout :: "FlowEdge \<Rightarrow> js_string" where
  "edge_layout edge =
     ascii ''{'' @ [cu (CHR 0x0A)]
     @ ascii ''      '' @ dq ''id'' @ ascii '': '' @ quoteJSONString (edge_id edge)
       @ ascii '','' @ [cu (CHR 0x0A)]
     @ ascii ''      '' @ dq ''source'' @ ascii '': '' @ quoteJSONString (source edge)
       @ ascii '','' @ [cu (CHR 0x0A)]
     @ ascii ''      '' @ dq ''target'' @ ascii '': '' @ quoteJSONString (target edge)
       @ [cu (CHR 0x0A)]
     @ ascii ''    }''"

definition array_layout :: "js_string list \<Rightarrow> js_string" where
  "array_layout items =
     (if items = [] then ascii ''[]''
      else ascii ''['' @ [cu (CHR 0x0A)]
           @ ascii ''    '' @ join (ascii '','' @ [cu (CHR 0x0A)] @ ascii ''    '') items
           @ [cu (CHR 0x0A)]
           @ ascii ''  ]'')"

definition document_layout :: "FlowNode list \<Rightarrow> FlowEdge list \<Rightarrow> js_string" where
  "document_layout nodes edges =
     ascii ''{'' @ [cu (CHR 0x0A)]
     @ ascii ''  '' @ dq ''nodes'' @ ascii '': '' @ array_layout (map node_layout nodes)
       @ ascii '','' @ [cu (CHR 0x0A)]
     @ ascii ''  '' @ dq ''edges'' @ ascii '': '' @ array_layout (map edge_layout edges)
       @ [cu (CHR 0x0A)]
     @ ascii ''}''"

section \<open>Code units\<close>

lemma cu_eq_iff [simp]: "cu c = cu d \<longleftrightarrow> c = d"
  by (simp add: cu_def)

lemma ascii_eq_iff [simp]: "ascii a = ascii b \<longleftrightarrow> a = b"
proof -
  have "inj cu" by (rule injI) simp
  then show ?thesis by (simp add: ascii_def inj_map_eq_map)
qed

lemma ascii_append [simp]: "ascii (a @ b) = ascii a @ ascii b"
  by (simp add: ascii_def)

lemma ascii_Nil [simp]: "ascii [] = []"
  by (simp add: ascii_def)

lemma ascii_Cons [simp]: "ascii (c # s) = cu c # ascii s"
  by (simp add: ascii_def)

lemma length_ascii [simp]: "length (ascii s) = length s"
  by (simp add: ascii_def)

section \<open>Validation theorems\<close>

text \<open>
  C1. For a graph with at least two nodes, \<open>validateFlow\<close> answers \<open>valid = False\<close>
  exactly when more than one node has an id that is the target of no edge; the message is
  then the "Cannot save flow" text, and the "Flow saved successfully!" text otherwise.
\<close>

theorem validateFlow_two_or_more_nodes:
  assumes "2 \<le> length nodes"
  shows "(valid (validateFlow nodes edges) = False \<longleftrightarrow>
            1 < length (filter (\<lambda>n. \<forall>e \<in> set edges. target e \<noteq> node_id n) nodes))
       \<and> (valid (validateFlow nodes edges) = False \<longrightarrow>
            message (validateFlow nodes edges) =
              ''Cannot save flow: More than one node has empty target handles.'')
       \<and> (valid (validateFlow nodes edges) = True \<longrightarrow>
            message (validateFlow nodes edges) = ''Flow saved successfully!'')"
proof -
  have same: "(\<lambda>node. node_id node \<notin> set (map target edges)) =
              (\<lambda>n. \<forall>e \<in> set edges. target e \<noteq> node_id n)"
    by (rule ext) (auto simp: image_iff)
  from assms have "\<not> length nodes \<le> 1" by simp
  then show ?thesis
    unfolding validateFlow_def Let_def same by simp
qed

theorem validateFlow_two_or_more_nodes_witness:
  "valid (validateFlow
       [\<lparr>node_id = ascii ''A'', node_type = Some (ascii ''textNode''),
         position = \<lparr>pos_x = PosZero, pos_y = PosZero\<rparr>, data = \<lparr>data_text = ascii ''a''\<rparr>,
         selected = None, dragging = None\<rparr>,
        \<lparr>node_id = ascii ''B'', node_type = Some (ascii ''textNode''),
         position = \<lparr>pos_x = Decimal False 15 2, pos_y = PosZero\<rparr>, data = \<lparr>data_text = ascii ''b''\<rparr>,
         selected = None, dragging = None\<rparr>,
        \<lparr>node_id = ascii ''C'', node_type = Some (ascii ''textNode''),
         position = \<lparr>pos_x = Decimal False 3 2, pos_y = PosZero\<rparr>, data = \<lparr>data_text = ascii ''c''\<rparr>,
         selected = None, dragging = None\<rparr>]
       [\<lparr>edge_id = ascii ''e1'', source = ascii ''A'', target = ascii ''B'', sourceHandle = HStr (ascii ''source''),
         targetHandle = HStr (ascii ''target''), edge_selected = None, animated = Some False\<rparr>])
     = False
   \<and> message (validateFlow
       [\<lparr>node_id = ascii ''A'', node_type = Some (ascii ''textNode''),
         position = \<lparr>pos_x = PosZero, pos_y = PosZero\<rparr>, data = \<lparr>data_text = ascii ''a''\<rparr>,
         selected = None, dragging = None\<rparr>,
        \<lparr>node_id = ascii ''B'', node_type = Some (ascii ''textNode''),
         position = \<lparr>pos_x = Decimal False 15 2, pos_y = PosZero\<rparr>, data = \<lparr>data_text = ascii ''b''\<rparr>,
         selected = None, dragging = None\<rparr>,
        \<lparr>node_id = ascii ''C'', node_type = Some (ascii ''textNode''),
         position = \<lparr>pos_x = Decimal False 3 2, pos_y = PosZero\<rparr>, data = \<lparr>data_text = ascii ''c''\<rparr>,
         selected = None, dragging = None\<rparr>]
       [\<lparr>edge_id = ascii ''e1'', source = ascii ''A'', target = ascii ''B'', sourceHandle = HStr (ascii ''source''),
         targetHandle = HStr (ascii ''target''), edge_selected = None, animated = Some False\<rparr>])
     = ''Cannot save flow: More than one node has empty target handles.''"
  using validateFlow_two_or_more_nodes
    [of "[\<lparr>node_id = ascii ''A'', node_type = Some (ascii ''textNode''),
         position = \<lparr>pos_x = PosZero, pos_y = PosZero\<rparr>, data = \<lparr>data_text = ascii ''a''\<rparr>,
         selected = None, dragging = None\<rparr>,
        \<lparr>node_id = ascii ''B'', node_type = Some (ascii ''textNode''),
         position = \<lparr>pos_x = Decimal False 15 2, pos_y = PosZero\<rparr>, data = \<lparr>data_text = ascii ''b''\<rparr>,
         selected = None, dragging = None\<rparr>,
        \<lparr>node_id = ascii ''C'', node_type = Some (ascii ''textNode''),
         position = \<lparr>pos_x = Decimal False 3 2, pos_y = PosZero\<rparr>, data = \<lparr>data_text = ascii ''c''\<rparr>,
         selected = None, dragging = None\<rparr>]"
        "[\<lparr>edge_id = ascii ''e1'', source = ascii ''A'', target = ascii ''B'', sourceHandle = HStr (ascii ''source''),
         targetHandle = HStr (ascii ''target''), edge_selected = None, animated = Some False\<rparr>]"]
  by simp

text \<open>
  C2. A graph with no node or a single node is accepted with the message
  "Flow saved successfully!", whatever the edge list holds.
\<close>

theorem validateFlow_at_most_one_node:
  assumes "length nodes \<le> 1"
  shows "validateFlow nodes edges = \<lparr>valid = True, message = ''Flow saved successfully!''\<rparr>"
  using assms by (simp add: validateFlow_def)

theorem validateFlow_at_most_one_node_witness:
  "validateFlow
     [\<lparr>node_id = ascii ''node_0'', node_type = Some (ascii ''textNode''),
       position = \<lparr>pos_x = Decimal False 18 3, pos_y = Decimal False 18 3\<rparr>,
       data = \<lparr>data_text = ascii ''Hello! How can I help you today?''\<rparr>,
       selected = None, dragging = None\<rparr>]
     [\<lparr>edge_id = ascii ''e1'', source = ascii ''ghost'', target = ascii ''nowhere'', sourceHandle = HNull,
       targetHandle = HUndefined, edge_selected = None, animated = None\<rparr>]
   = \<lparr>valid = True, message = ''Flow saved successfully!''\<rparr>"
  using validateFlow_at_most_one_node
    [of "[\<lparr>node_id = ascii ''node_0'', node_type = Some (ascii ''textNode''),
       position = \<lparr>pos_x = Decimal False 18 3, pos_y = Decimal False 18 3\<rparr>,
       data = \<lparr>data_text = ascii ''Hello! How can I help you today?''\<rparr>,
       selected = None, dragging = None\<rparr>]"
        "[\<lparr>edge_id = ascii ''e1'', source = ascii ''ghost'', target = ascii ''nowhere'', sourceHandle = HNull,
       targetHandle = HUndefined, edge_selected = None, animated = None\<rparr>]"]
  by simp

section \<open>Admission theorems\<close>

lemma list_ex_source_port_taken:
  "list_ex (\<lambda>e. Some (source e) = conn_source c \<and>
                  handle_strict_eq (sourceHandle e) (conn_sourceHandle c)) es
   = source_port_taken es c"
  by (simp add: source_port_taken_def list_ex_iff)

lemma source_port_taken_mset:
  assumes "mset es = mset es'"
  shows "source_port_taken es c = source_port_taken es' c"
proof -
  from assms have "set es = set es'" by (rule mset_eq_setD)
  then show ?thesis by (simp add: source_port_taken_def)
qed

text \<open>
  C3, as stated, fails: a proposal from a node to itself is rejected although no existing
  edge leaves its source handle (here the edge list is empty), so "accepts it otherwise"
  does not hold for every proposal.
\<close>

theorem isValidConnection_accepts_otherwise_counterexample:
  "\<not> source_port_taken []
       \<lparr>conn_source = Some (ascii ''node_0''), conn_target = Some (ascii ''node_0''),
        conn_sourceHandle = Some (ascii ''source''), conn_targetHandle = Some (ascii ''target'')\<rparr>
   \<and> isValidConnection []
       \<lparr>conn_source = Some (ascii ''node_0''), conn_target = Some (ascii ''node_0''),
        conn_sourceHandle = Some (ascii ''source''), conn_targetHandle = Some (ascii ''target'')\<rparr>
     = False"
  by (simp add: source_port_taken_def isValidConnection_def)

text \<open>
  C3, amended. A proposal whose (source node id, source handle) pair equals that of some
  existing edge is rejected; a proposal between two different nodes is accepted otherwise;
  and the verdict is the same for every permutation of the existing edge list.
\<close>

theorem isValidConnection_source_port_rule:
  "(source_port_taken es c \<longrightarrow> isValidConnection es c = False)
   \<and> (conn_source c \<noteq> conn_target c \<and> \<not> source_port_taken es c \<longrightarrow>
        isValidConnection es c = True)
   \<and> (mset es = mset es' \<longrightarrow> isValidConnection es c = isValidConnection es' c)"
proof (intro conjI impI)
  assume "source_port_taken es c"
  then show "isValidConnection es c = False"
    by (simp add: isValidConnection_def list_ex_source_port_taken)
next
  assume "conn_source c \<noteq> conn_target c \<and> \<not> source_port_taken es c"
  then show "isValidConnection es c = True"
    by (simp add: isValidConnection_def list_ex_source_port_taken)
next
  assume "mset es = mset es'"
  then have "source_port_taken es c = source_port_taken es' c"
    by (rule source_port_taken_mset)
  then show "isValidConnection es c = isValidConnection es' c"
    by (simp add: isValidConnection_def list_ex_source_port_taken)
qed

theorem isValidConnection_source_port_rule_witness:
  "source_port_taken
     [\<lparr>edge_id = ascii ''e1'', source = ascii ''A'', target = ascii ''C'', sourceHandle = HStr (ascii ''source''),
       targetHandle = HStr (ascii ''target''), edge_selected = None, animated = Some False\<rparr>,
      \<lparr>edge_id = ascii ''e2'', source = ascii ''D'', target = ascii ''B'', sourceHandle = HStr (ascii ''source''),
       targetHandle = HStr (ascii ''target''), edge_selected = None, animated = Some False\<rparr>]
     \<lparr>conn_source = Some (ascii ''A''), conn_target = Some (ascii ''B''),
      conn_sourceHandle = Some (ascii ''source''), conn_targetHandle = Some (ascii ''target'')\<rparr>
   \<and> isValidConnection
     [\<lparr>edge_id = ascii ''e1'', source = ascii ''A'', target = ascii ''C'', sourceHandle = HStr (ascii ''source''),
       targetHandle = HStr (ascii ''target''), edge_selected = None, animated = Some False\<rparr>,
      \<lparr>edge_id = ascii ''e2'', source = ascii ''D'', target = ascii ''B'', sourceHandle = HStr (ascii ''source''),
       targetHandle = HStr (ascii ''target''), edge_selected = None, animated = Some False\<rparr>]
     \<lparr>conn_source = Some (ascii ''A''), conn_target = Some (ascii ''B''),
      conn_sourceHandle = Some (ascii ''source''), conn_targetHandle = Some (ascii ''target'')\<rparr>
     = False
   \<and> isValidConnection
     [\<lparr>edge_id = ascii ''e2'', source = ascii ''D'', target = ascii ''B'', sourceHandle = HStr (ascii ''source''),
       targetHandle = HStr (ascii ''target''), edge_selected = None, animated = Some False\<rparr>,
      \<lparr>edge_id = ascii ''e1'', source = ascii ''A'', target = ascii ''C'', sourceHandle = HStr (ascii ''source''),
       targetHandle = HStr (ascii ''target''), edge_selected = None, animated = Some False\<rparr>]
     \<lparr>conn_source = Some (ascii ''A''), conn_target = Some (ascii ''B''),
      conn_sourceHandle = Some (ascii ''source''), conn_targetHandle = Some (ascii ''target'')\<rparr>
     = False
   \<and> isValidConnection
     [\<lparr>edge_id = ascii ''e1'', source = ascii ''A'', target = ascii ''C'', sourceHandle = HStr (ascii ''source''),
       targetHandle = HStr (ascii ''target''), edge_selected = None, animated = Some False\<rparr>,
      \<lparr>edge_id = ascii ''e2'', source = ascii ''D'', target = ascii ''B'', sourceHandle = HStr (ascii ''source''),
       targetHandle = HStr (ascii ''target''), edge_selected = None, animated = Some False\<rparr>]
     \<lparr>conn_source = Some (ascii ''C''), conn_target = Some (ascii ''B''),
      conn_sourceHandle = Some (ascii ''source''), conn_targetHandle = Some (ascii ''target'')\<rparr>
     = True
   \<and> isValidConnection
     [\<lparr>edge_id = ascii ''e2'', source = ascii ''D'', target = ascii ''B'', sourceHandle = HStr (ascii ''source''),
       targetHandle = HStr (ascii ''target''), edge_selected = None, animated = Some False\<rparr>,
      \<lparr>edge_id = ascii ''e1'', source = ascii ''A'', target = ascii ''C'', sourceHandle = HStr (ascii ''source''),
       targetHandle = HStr (ascii ''target''), edge_selected = None, animated = Some False\<rparr>]
     \<lparr>conn_source = Some (ascii ''C''), conn_target = Some (ascii ''B''),
      conn_sourceHandle = Some (ascii ''source''), conn_targetHandle = Some (ascii ''target'')\<rparr>
     = True"
proof -
  have perm: "mset [\<lparr>edge_id = ascii ''e1'', source = ascii ''A'', target = ascii ''C'', sourceHandle = HStr (ascii ''source''),
       targetHandle = HStr (ascii ''target''), edge_selected = None, animated = Some False\<rparr>,
      \<lparr>edge_id = ascii ''e2'', source = ascii ''D'', target = ascii ''B'', sourceHandle = HStr (ascii ''source''),
       targetHandle = HStr (ascii ''target''), edge_selected = None, animated = Some False\<rparr>]
      = mset [\<lparr>edge_id = ascii ''e2'', source = ascii ''D'', target = ascii ''B'', sourceHandle = HStr (ascii ''source''),
       targetHandle = HStr (ascii ''target''), edge_selected = None, animated = Some False\<rparr>,
      \<lparr>edge_id = ascii ''e1'', source = ascii ''A'', target = ascii ''C'', sourceHandle = HStr (ascii ''source''),
       targetHandle = HStr (ascii ''target''), edge_selected = None, animated = Some False\<rparr>]"
    by simp
  have taken: "source_port_taken
     [\<lparr>edge_id = ascii ''e1'', source = ascii ''A'', target = ascii ''C'', sourceHandle = HStr (ascii ''source''),
       targetHandle = HStr (ascii ''target''), edge_selected = None, animated = Some False\<rparr>,
      \<lparr>edge_id = ascii ''e2'', source = ascii ''D'', target = ascii ''B'', sourceHandle = HStr (ascii ''source''),
       targetHandle = HStr (ascii ''target''), edge_selected = None, animated = Some False\<rparr>]
     \<lparr>conn_source = Some (ascii ''A''), conn_target = Some (ascii ''B''),
      conn_sourceHandle = Some (ascii ''source''), conn_targetHandle = Some (ascii ''target'')\<rparr>"
    by (simp add: source_port_taken_def)
  have free: "conn_source \<lparr>conn_source = Some (ascii ''C''), conn_target = Some (ascii ''B''),
      conn_sourceHandle = Some (ascii ''source''), conn_targetHandle = Some (ascii ''target'')\<rparr>
      \<noteq> conn_target \<lparr>conn_source = Some (ascii ''C''), conn_target = Some (ascii ''B''),
      conn_sourceHandle = Some (ascii ''source''), conn_targetHandle = Some (ascii ''target'')\<rparr>
    \<and> \<not> source_port_taken
     [\<lparr>edge_id = ascii ''e1'', source = ascii ''A'', target = ascii ''C'', sourceHandle = HStr (ascii ''source''),
       targetHandle = HStr (ascii ''target''), edge_selected = None, animated = Some False\<rparr>,
      \<lparr>edge_id = ascii ''e2'', source = ascii ''D'', target = ascii ''B'', sourceHandle = HStr (ascii ''source''),
       targetHandle = HStr (ascii ''target''), edge_selected = None, animated = Some False\<rparr>]
     \<lparr>conn_source = Some (ascii ''C''), conn_target = Some (ascii ''B''),
      conn_sourceHandle = Some (ascii ''source''), conn_targetHandle = Some (ascii ''target'')\<rparr>"
    by (simp add: source_port_taken_def)
  note rejected = isValidConnection_source_port_rule
    [of "[\<lparr>edge_id = ascii ''e1'', source = ascii ''A'', target = ascii ''C'', sourceHandle = HStr (ascii ''source''),
       targetHandle = HStr (ascii ''target''), edge_selected = None, animated = Some False\<rparr>,
      \<lparr>edge_id = ascii ''e2'', source = ascii ''D'', target = ascii ''B'', sourceHandle = HStr (ascii ''source''),
       targetHandle = HStr (ascii ''target''), edge_selected = None, animated = Some False\<rparr>]"
        "\<lparr>conn_source = Some (ascii ''A''), conn_target = Some (ascii ''B''),
      conn_sourceHandle = Some (ascii ''source''), conn_targetHandle = Some (ascii ''target'')\<rparr>"
        "[\<lparr>edge_id = ascii ''e2'', source = ascii ''D'', target = ascii ''B'', sourceHandle = HStr (ascii ''source''),
       targetHandle = HStr (ascii ''target''), edge_selected = None, animated = Some False\<rparr>,
      \<lparr>edge_id = ascii ''e1'', source = ascii ''A'', target = ascii ''C'', sourceHandle = HStr (ascii ''source''),
       targetHandle = HStr (ascii ''target''), edge_selected = None, animated = Some False\<rparr>]"]
  note accepted = isValidConnection_source_port_rule
    [of "[\<lparr>edge_id = ascii ''e1'', source = ascii ''A'', target = ascii ''C'', sourceHandle = HStr (ascii ''source''),
       targetHandle = HStr (ascii ''target''), edge_selected = None, animated = Some False\<rparr>,
      \<lparr>edge_id = ascii ''e2'', source = ascii ''D'', target = ascii ''B'', sourceHandle = HStr (ascii ''source''),
       targetHandle = HStr (ascii ''target''), edge_selected = None, animated = Some False\<rparr>]"
        "\<lparr>conn_source = Some (ascii ''C''), conn_target = Some (ascii ''B''),
      conn_sourceHandle = Some (ascii ''source''), conn_targetHandle = Some (ascii ''target'')\<rparr>"
        "[\<lparr>edge_id = ascii ''e2'', source = ascii ''D'', target = ascii ''B'', sourceHandle = HStr (ascii ''source''),
       targetHandle = HStr (ascii ''target''), edge_selected = None, animated = Some False\<rparr>,
      \<lparr>edge_id = ascii ''e1'', source = ascii ''A'', target = ascii ''C'', sourceHandle = HStr (ascii ''source''),
       targetHandle = HStr (ascii ''target''), edge_selected = None, animated = Some False\<rparr>]"]
  from rejected taken perm accepted free show ?thesis
    by metis
qed

text \<open>
  C4. A proposal whose source node id equals its target node id is rejected, whatever the
  existing edges are.
\<close>

theorem isValidConnection_rejects_self_loop:
  assumes "conn_source c = conn_target c"
  shows "isValidConnection es c = False"
  using assms by (simp add: isValidConnection_def)

theorem isValidConnection_rejects_self_loop_witness:
  "isValidConnection
     [\<lparr>edge_id = ascii ''e1'', source = ascii ''B'', target = ascii ''C'', sourceHandle = HStr (ascii ''source''),
       targetHandle = HStr (ascii ''target''), edge_selected = None, animated = Some False\<rparr>]
     \<lparr>conn_source = Some (ascii ''A''), conn_target = Some (ascii ''A''),
      conn_sourceHandle = Some (ascii ''source''), conn_targetHandle = Some (ascii ''target'')\<rparr>
   = False"
  using isValidConnection_rejects_self_loop
    [of "\<lparr>conn_source = Some (ascii ''A''), conn_target = Some (ascii ''A''),
      conn_sourceHandle = Some (ascii ''source''), conn_targetHandle = Some (ascii ''target'')\<rparr>"
        "[\<lparr>edge_id = ascii ''e1'', source = ascii ''B'', target = ascii ''C'', sourceHandle = HStr (ascii ''source''),
       targetHandle = HStr (ascii ''target''), edge_selected = None, animated = Some False\<rparr>]"]
  by simp

section \<open>Image export theorems\<close>

text \<open>
  C6, as stated, fails where the rasterizer throws a value that is not an instance of
  \<open>Error\<close>: the value's own message (here "boom") is not what is reported.
\<close>

theorem exportFlowAsImage_non_error_counterexample:
  "exportFlowAsImage (Some ''.react-flow'') (toPng_rejects (OtherValue (Some (ascii ''boom''))))
     = Inr (\<lparr>success = False, error = Some (ascii ''Unknown error during image export.'')\<rparr>, [])
   \<and> thrown_message (OtherValue (Some (ascii ''boom''))) = Some (ascii ''boom'')
   \<and> Some (ascii ''Unknown error during image export.'') \<noteq> thrown_message (OtherValue (Some (ascii ''boom'')))"
  by (simp add: exportFlowAsImage_def exportFlowAsImage_try_def toPng_rejects_def)

text \<open>
  C6, amended. \<open>exportFlowAsImage\<close> never throws: every call returns a result object.
  Without a canvas element the result is \<open>{success: false, error: 'Could not find the flow
  canvas element.'}\<close>; when the rasterizer throws an instance of \<open>Error\<close> it is
  \<open>{success: false, error: <that error's message>}\<close>; when it throws any other value it
  is \<open>{success: false, error: 'Unknown error during image export.'}\<close>; otherwise it
  is \<open>{success: true}\<close>, and the image is downloaded as \<open>chatbot-flow.png\<close>.
\<close>

theorem exportFlowAsImage_never_throws:
  "(\<exists>r. exportFlowAsImage flowElement toPng = Inr r)
   \<and> (flowElement = None \<longrightarrow>
        exportFlowAsImage flowElement toPng =
          Inr (\<lparr>success = False, error = Some (ascii ''Could not find the flow canvas element.'')\<rparr>, []))
   \<and> (\<forall>el m. flowElement = Some el \<and> toPng el = Inl (ErrorInstance m) \<longrightarrow>
        exportFlowAsImage flowElement toPng = Inr (\<lparr>success = False, error = Some m\<rparr>, []))
   \<and> (\<forall>el v. flowElement = Some el \<and> toPng el = Inl (OtherValue v) \<longrightarrow>
        exportFlowAsImage flowElement toPng =
          Inr (\<lparr>success = False, error = Some (ascii ''Unknown error during image export.'')\<rparr>, []))
   \<and> (\<forall>el dataUrl. flowElement = Some el \<and> toPng el = Inr dataUrl \<longrightarrow>
        exportFlowAsImage flowElement toPng =
          Inr (\<lparr>success = True, error = None\<rparr>,
               [\<lparr>download = ''chatbot-flow.png'', href = dataUrl\<rparr>]))"
proof (intro conjI allI impI)
  show "\<exists>r. exportFlowAsImage flowElement toPng = Inr r"
    by (simp add: exportFlowAsImage_def split: sum.split)
qed (auto simp: exportFlowAsImage_def exportFlowAsImage_try_def)

theorem exportFlowAsImage_never_throws_witness:
  "exportFlowAsImage (None :: string option) (toPng_yields (ascii ''data:image/png;base64,AAAA''))
     = Inr (\<lparr>success = False, error = Some (ascii ''Could not find the flow canvas element.'')\<rparr>, [])
   \<and> exportFlowAsImage (Some ''.react-flow'') (toPng_rejects (ErrorInstance (ascii ''tainted canvas'')))
     = Inr (\<lparr>success = False, error = Some (ascii ''tainted canvas'')\<rparr>, [])
   \<and> exportFlowAsImage (Some ''.react-flow'') (toPng_rejects (OtherValue None))
     = Inr (\<lparr>success = False, error = Some (ascii ''Unknown error during image export.'')\<rparr>, [])
   \<and> exportFlowAsImage (Some ''.react-flow'') (toPng_yields (ascii ''data:image/png;base64,AAAA''))
     = Inr (\<lparr>success = True, error = None\<rparr>,
            [\<lparr>download = ''chatbot-flow.png'', href = ascii ''data:image/png;base64,AAAA''\<rparr>])"
  using exportFlowAsImage_never_throws
      [of "None :: string option" "toPng_yields (ascii ''data:image/png;base64,AAAA'')"]
    exportFlowAsImage_never_throws
      [of "Some ''.react-flow''" "toPng_rejects (ErrorInstance (ascii ''tainted canvas''))"]
    exportFlowAsImage_never_throws
      [of "Some ''.react-flow''" "toPng_rejects (OtherValue None)"]
    exportFlowAsImage_never_throws
      [of "Some ''.react-flow''" "toPng_yields (ascii ''data:image/png;base64,AAAA'')"]
  by (simp add: toPng_rejects_def toPng_yields_def)

section \<open>Decimal numerals\<close>


lemma nat_to_string_nonempty: "nat_to_string n \<noteq> []"
  by (subst nat_to_string.simps) simp


lemma digit_char_0: "digit_char 0 = CHR ''0''"
  by (simp add: digit_char_def)

lemma nat_to_string_one_digit: "n < 10 \<Longrightarrow> nat_to_string n = [digit_char n]"
  by (simp add: nat_to_string.simps)

lemma nat_to_string_two_digits:
  "10 \<le> n \<Longrightarrow> n < 100 \<Longrightarrow> nat_to_string n = [digit_char (n div 10), digit_char (n mod 10)]"
  by (subst nat_to_string.simps) (simp add: nat_to_string_one_digit)

lemma nat_to_string_three_digits:
  assumes "100 \<le> n" "n < 1000"
  shows "nat_to_string n = [digit_char (n div 100), digit_char (n div 10 mod 10), digit_char (n mod 10)]"
proof -
  from assms have "10 \<le> n div 10" "n div 10 < 100" by simp_all
  then have "nat_to_string (n div 10) = [digit_char (n div 10 div 10), digit_char (n div 10 mod 10)]"
    by (rule nat_to_string_two_digits)
  moreover have "n div 10 div 10 = n div 100" by (simp add: div_mult2_eq [symmetric])
  ultimately show ?thesis using assms by (subst nat_to_string.simps) simp
qed

lemma nat_to_string_four_digits:
  assumes "1000 \<le> n" "n < 10000"
  shows "nat_to_string n = four_digits n"
proof -
  from assms have "100 \<le> n div 10" "n div 10 < 1000" by simp_all
  then have "nat_to_string (n div 10)
     = [digit_char (n div 10 div 100), digit_char (n div 10 div 10 mod 10), digit_char (n div 10 mod 10)]"
    by (rule nat_to_string_three_digits)
  moreover have "n div 10 div 100 = n div 1000" "n div 10 div 10 = n div 100"
    by (simp_all add: div_mult2_eq [symmetric])
  ultimately show ?thesis using assms
    by (subst nat_to_string.simps) (simp add: four_digits_def)
qed

lemma pad2_number:
  assumes "0 \<le> i" "i < 100"
  shows "padStart 2 ''0'' (number_to_string i) = two_digits (nat i)"
proof (cases "i < 10")
  case True
  with assms have "nat_to_string (nat i) = [digit_char (nat i)]"
    by (intro nat_to_string_one_digit) simp
  moreover from True assms have "nat i div 10 = 0" by simp
  ultimately show ?thesis using assms
    by (simp add: padStart_def number_to_string_def two_digits_def digit_char_0)
next
  case False
  with assms have "nat_to_string (nat i) = [digit_char (nat i div 10), digit_char (nat i mod 10)]"
    by (intro nat_to_string_two_digits) simp_all
  then show ?thesis using assms
    by (simp add: padStart_def number_to_string_def two_digits_def)
qed

lemma getTodayString_padded:
  assumes "0 \<le> getMonth d" "getMonth d \<le> 11"
    and "1 \<le> getDate d" "getDate d \<le> 31"
  shows "getTodayString d =
           number_to_string (getFullYear d) @ ''-'' @ two_digits (nat (getMonth d + 1))
             @ ''-'' @ two_digits (nat (getDate d))"
proof -
  from assms have "padStart 2 ''0'' (number_to_string (getMonth d + 1))
      = two_digits (nat (getMonth d + 1))"
    by (intro pad2_number) simp_all
  moreover from assms have "padStart 2 ''0'' (number_to_string (getDate d))
      = two_digits (nat (getDate d))"
    by (intro pad2_number) simp_all
  ultimately show ?thesis by (simp add: getTodayString_def Let_def)
qed

lemma number_to_string_year:
  assumes "1000 \<le> y" "y \<le> 9999"
  shows "number_to_string y = four_digits (nat y)"
  using assms by (simp add: number_to_string_def nat_to_string_four_digits)

lemma getTodayString_layout:
  assumes "1000 \<le> getFullYear d" "getFullYear d \<le> 9999"
    and "0 \<le> getMonth d" "getMonth d \<le> 11"
    and "1 \<le> getDate d" "getDate d \<le> 31"
  shows "getTodayString d =
           four_digits (nat (getFullYear d)) @ ''-'' @ two_digits (nat (getMonth d + 1))
             @ ''-'' @ two_digits (nat (getDate d))"
proof -
  from assms have "number_to_string (getFullYear d) = four_digits (nat (getFullYear d))"
    by (simp add: number_to_string_def nat_to_string_four_digits)
  moreover from assms have "padStart 2 ''0'' (number_to_string (getMonth d + 1)) = two_digits (nat (getMonth d + 1))"
    by (intro pad2_number) simp_all
  moreover from assms have "padStart 2 ''0'' (number_to_string (getDate d)) = two_digits (nat (getDate d))"
    by (intro pad2_number) simp_all
  ultimately show ?thesis by (simp add: getTodayString_def Let_def)
qed

section \<open>Node identity theorems\<close>
























section \<open>Export file name theorems\<close>

text \<open>
  C8, as stated, fails: the file is not named \<open>flow-export-YYYY-MM-DD.<ext>\<close>. On
  2 November 2026 the name is \<open>chatbot-flow-2026-11-02.json\<close>.
\<close>

theorem exportFlowAsJSON_filename_counterexample:
  "dl_filename (exportFlowAsJSON initialNodes initialEdges
      \<lparr>getFullYear = 2026, getMonth = 10, getDate = 2\<rparr>) = ''chatbot-flow-2026-11-02.json''
   \<and> take 12 (dl_filename (exportFlowAsJSON initialNodes initialEdges
      \<lparr>getFullYear = 2026, getMonth = 10, getDate = 2\<rparr>)) \<noteq> ''flow-export-''"
  by (simp add: exportFlowAsJSON_def triggerDownload_def getTodayString_def padStart_def
      number_to_string_def nat_to_string.simps digit_char_def)

text \<open>
  C8, amended. The structured export hands its bytes (the text \<open>JSON.stringify\<close> made
  of the graph) to the save-as-file capability under a file name derived from the current
  calendar date alone, following the pattern \<open>chatbot-flow-YYYY-MM-DD.json\<close>.
\<close>

theorem exportFlowAsJSON_filename_from_date:
  assumes "1000 \<le> getFullYear today" "getFullYear today \<le> 9999"
    and "0 \<le> getMonth today" "getMonth today \<le> 11"
    and "1 \<le> getDate today" "getDate today \<le> 31"
  shows "dl_filename (exportFlowAsJSON nodes edges today) =
           ''chatbot-flow-'' @ four_digits (nat (getFullYear today)) @ ''-''
             @ two_digits (nat (getMonth today + 1)) @ ''-''
             @ two_digits (nat (getDate today)) @ ''.json''
       \<and> JSON_stringify (flowData nodes edges) 2
           = Some (dl_content (exportFlowAsJSON nodes edges today))"
proof -
  have "dl_filename (exportFlowAsJSON nodes edges today)
          = ''chatbot-flow-'' @ getTodayString today @ ''.json''"
    by (simp add: exportFlowAsJSON_def triggerDownload_def Let_def)
  moreover have "JSON_stringify (flowData nodes edges) 2
           = Some (dl_content (exportFlowAsJSON nodes edges today))"
    by (simp add: exportFlowAsJSON_def triggerDownload_def Let_def JSON_stringify_def flowData_def)
  ultimately show ?thesis using getTodayString_layout [OF assms] by simp
qed

theorem exportFlowAsJSON_filename_from_date_witness:
  "dl_filename (exportFlowAsJSON initialNodes initialEdges
      \<lparr>getFullYear = 2031, getMonth = 0, getDate = 9\<rparr>) = ''chatbot-flow-2031-01-09.json''"
  using exportFlowAsJSON_filename_from_date
    [of "\<lparr>getFullYear = 2031, getMonth = 0, getDate = 9\<rparr>" initialNodes initialEdges]
  by (simp add: four_digits_def two_digits_def digit_char_def)

section \<open>Writing a number and reading it back\<close>

text \<open>
  The digits of a numeral are read back as the number they were written from, and the
  numeral \<open>Number::toString\<close> writes for a finite number is read back as that number,
  in each of its five layouts.
\<close>

lemma digit_val_cu: 
  "digit_val (cu c) = (if (48::nat) \<le> of_char c \<and> (of_char c :: nat) \<le> 57 then Some (of_char c - 48) else None)"
  by (simp add: cu_def)

lemma digit_val_digit_char: "d < 10 \<Longrightarrow> digit_val (cu (digit_char d)) = Some d"
  by (simp add: digit_val_cu digit_char_def)

lemma is_digit_digit_char: "d < 10 \<Longrightarrow> is_digit (cu (digit_char d))"
  by (simp add: is_digit_def digit_val_digit_char)

lemma is_digit_nat_to_string: "c \<in> set (nat_to_string n) \<Longrightarrow> is_digit (cu c)"
proof (induction n arbitrary: c rule: nat_to_string.induct)
  case (1 n)
  show ?case
  proof (cases "n < 10")
    case True
    with 1(2) show ?thesis by (simp add: nat_to_string.simps [of n] is_digit_digit_char)
  next
    case False
    with 1(2) have "c \<in> set (nat_to_string (n div 10)) \<or> c = digit_char (n mod 10)"
      by (auto simp: nat_to_string.simps [of n])
    then show ?thesis
    proof
      assume "c \<in> set (nat_to_string (n div 10))"
      with 1(1) False show ?thesis by simp
    next
      assume "c = digit_char (n mod 10)"
      then show ?thesis by (simp add: is_digit_digit_char)
    qed
  qed
qed

lemma all_digits_nat_to_string: "list_all is_digit (ascii (nat_to_string n))"
  by (auto simp: list_all_iff ascii_def is_digit_nat_to_string)

lemma all_digits_take: "list_all is_digit D \<Longrightarrow> list_all is_digit (take m D)"
  by (auto simp: list_all_iff dest: in_set_takeD)

lemma all_digits_drop: "list_all is_digit D \<Longrightarrow> list_all is_digit (drop m D)"
  by (auto simp: list_all_iff dest: in_set_dropD)

lemma foldl_digits:
  "foldl (\<lambda>acc c. acc * 10 + (case digit_val c of None \<Rightarrow> 0 | Some d \<Rightarrow> d)) a b
     = a * 10 ^ length b
       + foldl (\<lambda>acc c. acc * 10 + (case digit_val c of None \<Rightarrow> 0 | Some d \<Rightarrow> d)) 0 b"
proof -
  define f where "f = (\<lambda>acc c. acc * 10 + (case digit_val c of None \<Rightarrow> 0 | Some d \<Rightarrow> d))"
  have "foldl f a b = a * 10 ^ length b + foldl f 0 b"
  proof (induction b arbitrary: a)
    case Nil
    show ?case by simp
  next
    case (Cons c cs)
    have "foldl f a (c # cs) = foldl f (f a c) cs" by simp
    also have "\<dots> = f a c * 10 ^ length cs + foldl f 0 cs" by (rule Cons.IH)
    finally have l: "foldl f a (c # cs) = f a c * 10 ^ length cs + foldl f 0 cs" .
    have "foldl f 0 (c # cs) = foldl f (f 0 c) cs" by simp
    also have "\<dots> = f 0 c * 10 ^ length cs + foldl f 0 cs" by (rule Cons.IH)
    finally have r: "foldl f 0 (c # cs) = f 0 c * 10 ^ length cs + foldl f 0 cs" .
    have "f a c = a * 10 + f 0 c" by (simp add: f_def)
    then show ?case unfolding l r by (simp add: algebra_simps)
  qed
  then show ?thesis by (simp only: f_def)
qed

lemma digits_value_append:
  "digits_value (a @ b) = digits_value a * 10 ^ length b + digits_value b"
  unfolding digits_value_def foldl_append by (rule foldl_digits)

lemma digits_value_Nil: "digits_value [] = 0"
  by (simp add: digits_value_def)

lemma digits_value_single: "d < 10 \<Longrightarrow> digits_value [cu (digit_char d)] = d"
  by (simp add: digits_value_def digit_val_digit_char)

lemma digits_value_nat_to_string: "digits_value (ascii (nat_to_string n)) = n"
proof (induction n rule: nat_to_string.induct)
  case (1 n)
  show ?case
  proof (cases "n < 10")
    case True
    then show ?thesis by (simp add: nat_to_string.simps [of n] digits_value_single)
  next
    case False
    with 1 have "digits_value (ascii (nat_to_string (n div 10))) = n div 10" by simp
    with False show ?thesis
      by (simp add: nat_to_string.simps [of n] digits_value_append digits_value_single)
  qed
qed

lemma digits_value_zeros: "digits_value (replicate z (cu CHR ''0'')) = 0"
  by (induction z) (simp_all add: digits_value_def digit_val_cu)

lemma strip_zeros_power:
  "0 < s \<Longrightarrow> s mod 10 \<noteq> 0 \<Longrightarrow> strip_zeros (s * 10 ^ z) = (s, z)"
proof (induction z)
  case 0
  then show ?case by (simp add: strip_zeros.simps [of s])
next
  case (Suc z)
  then have ih: "strip_zeros (s * 10 ^ z) = (s, z)" by simp
  define m where "m = s * 10 ^ z"
  have m: "s * 10 ^ Suc z = m * 10" by (simp add: m_def)
  from Suc.prems have "0 < m" by (simp add: m_def)
  then have "strip_zeros (m * 10) = (case strip_zeros m of (s, t) \<Rightarrow> (s, Suc t))"
    by (simp add: strip_zeros.simps [of "m * 10"])
  with ih show ?case unfolding m by (simp add: m_def)
qed

lemma hd_nat_to_string: "0 < n \<Longrightarrow> hd (nat_to_string n) \<noteq> CHR ''0''"
proof (induction n rule: nat_to_string.induct)
  case (1 n)
  show ?case
  proof (cases "n < 10")
    case True
    with 1(2) show ?thesis by (simp add: nat_to_string.simps [of n] digit_char_def)
  next
    case False
    with 1 have "hd (nat_to_string (n div 10)) \<noteq> CHR ''0''" by simp
    with False show ?thesis
      by (simp add: nat_to_string.simps [of n] nat_to_string_nonempty)
  qed
qed

lemma span_digits:
  assumes "list_all is_digit D" "takeWhile is_digit rest = []"
  shows "takeWhile is_digit (D @ rest) = D" "dropWhile is_digit (D @ rest) = rest"
proof -
  from assms(2) have "dropWhile is_digit rest = rest"
    using takeWhile_dropWhile_id [of is_digit rest] by simp
  with assms show "takeWhile is_digit (D @ rest) = D" "dropWhile is_digit (D @ rest) = rest"
    by (simp_all add: takeWhile_append2 dropWhile_append2 list_all_iff)
qed

lemma not_digit_literals:
  "\<not> is_digit (cu CHR ''-'')" "\<not> is_digit (cu CHR ''+'')" "\<not> is_digit (cu CHR ''.'')"
  "\<not> is_digit (cu CHR ''e'')" "\<not> is_digit (cu CHR ''E'')" "is_digit (cu CHR ''0'')"
  by (simp_all add: is_digit_def digit_val_cu)

lemma number_end_stop: "number_end rest \<Longrightarrow> takeWhile is_digit rest = []"
  by (cases rest) (simp_all add: number_end_def)

lemma parse_int_digits:
  assumes "D \<noteq> []" "list_all is_digit D" "hd D \<noteq> cu CHR ''0'' \<or> length D = 1"
    and "takeWhile is_digit rest = []"
  shows "parse_int (D @ rest) = Some (D, rest)"
  using assms(1,3) unfolding parse_int_def span_digits [OF assms(2,4)] by (auto simp: Let_def)

lemma parse_fraction_some:
  assumes "F \<noteq> []" "list_all is_digit F" "takeWhile is_digit rest = []"
  shows "parse_fraction (cu CHR ''.'' # F @ rest) = Some (F, rest)"
  using assms(1) unfolding parse_fraction_def by (simp add: span_digits [OF assms(2,3)])

lemma parse_fraction_none: "number_end rest \<Longrightarrow> parse_fraction rest = Some ([], rest)"
  by (cases rest) (simp_all add: parse_fraction_def number_end_def)

lemma parse_exponent_none: "number_end rest \<Longrightarrow> parse_exponent rest = Some (0, rest)"
  by (cases rest) (simp_all add: parse_exponent_def number_end_def)

lemma parse_exponent_text:
  assumes "takeWhile is_digit rest = []"
  shows "parse_exponent (ascii (exponent_text n) @ rest) = Some (n - 1, rest)"
proof -
  define m where "m = nat \<bar>n - 1\<bar>"
  define D where "D = ascii (nat_to_string m)"
  have all: "list_all is_digit D" unfolding D_def by (rule all_digits_nat_to_string)
  note sp = span_digits [OF all assms]
  have ne: "D \<noteq> []" using nat_to_string_nonempty [of m] by (simp add: D_def ascii_def)
  have val: "digits_value D = m" unfolding D_def by (rule digits_value_nat_to_string)
  show ?thesis
  proof (cases "n - 1 < 0")
    case True
    then have "ascii (exponent_text n) @ rest = cu CHR ''e'' # cu CHR ''-'' # D @ rest"
      by (simp add: exponent_text_def D_def m_def)
    moreover from True have "- int m = n - 1" by (simp add: m_def)
    ultimately show ?thesis using ne
      by (simp add: parse_exponent_def sp val)
  next
    case False
    then have "ascii (exponent_text n) @ rest = cu CHR ''e'' # cu CHR ''+'' # D @ rest"
      by (simp add: exponent_text_def D_def m_def)
    moreover from False have "int m = n - 1" by (simp add: m_def)
    ultimately show ?thesis using ne
      by (simp add: parse_exponent_def sp val)
  qed
qed

lemma parse_fraction_exponent_text:
  "parse_fraction (ascii (exponent_text n) @ rest) = Some ([], ascii (exponent_text n) @ rest)"
  by (simp add: parse_fraction_def exponent_text_def)

lemma stop_exponent_text: "takeWhile is_digit (ascii (exponent_text n) @ rest) = []"
  by (simp add: exponent_text_def not_digit_literals)

lemma number_of_digits:
  "0 < s \<Longrightarrow> s mod 10 \<noteq> 0 \<Longrightarrow>
     number_of negative (s * 10 ^ z) e
       = Decimal negative s (int (length (nat_to_string s)) + int z + e)"
  by (simp add: number_of_def strip_zeros_power)

lemma number_of_digits0:
  "0 < s \<Longrightarrow> s mod 10 \<noteq> 0 \<Longrightarrow>
     number_of negative s e = Decimal negative s (int (length (nat_to_string s)) + e)"
  using number_of_digits [of s negative 0 e] by simp

lemma parse_number_parts:
  assumes "I \<noteq> []" "list_all is_digit I" "hd I \<noteq> cu CHR ''0'' \<or> length I = 1"
    and "takeWhile is_digit t = []"
    and "parse_fraction t = Some (F, t')" and "parse_exponent t' = Some (e, rest)"
  shows "parse_number ((if negative then [cu CHR ''-''] else []) @ I @ t)
           = Some (JSNumber (number_of negative (digits_value (I @ F)) (e - int (length F))), rest)"
proof -
  from assms(1) obtain i I' where I: "I = i # I'" by (cases I) auto
  with assms(2) have "is_digit i" by simp
  then have "i \<noteq> cu CHR ''-''" using not_digit_literals(1) by auto
  then have "parse_sign ((if negative then [cu CHR ''-''] else []) @ I @ t) = (negative, I @ t)"
    by (simp add: parse_sign_def I)
  then show ?thesis
    unfolding parse_number_def
    by (simp add: parse_int_digits [OF assms(1-4)] assms(5,6))
qed

lemma parse_number_decimal:
  assumes s: "0 < s" "s mod 10 \<noteq> 0" and rest: "number_end rest"
  shows "parse_number ((if negative then [cu CHR ''-''] else []) @ ascii (decimal_text s n) @ rest)
           = Some (JSNumber (Decimal negative s n), rest)"
proof -
  define ds where "ds = nat_to_string s"
  define D where "D = ascii ds"
  define k where "k = int (length ds)"
  have D: "list_all is_digit D"
    unfolding D_def ds_def by (rule all_digits_nat_to_string)
  note Dt = all_digits_take [OF D] and Dd = all_digits_drop [OF D]
  have ne: "ds \<noteq> []" unfolding ds_def by (rule nat_to_string_nonempty)
  then have neD: "D \<noteq> []" by (simp add: D_def ascii_def)
  have k1: "1 \<le> k" using ne by (cases ds) (simp_all add: k_def)
  have lenD: "int (length D) = k" by (simp add: D_def k_def)
  have hdD: "hd D \<noteq> cu CHR ''0''"
    using hd_nat_to_string [OF s(1)] ne by (cases ds) (simp_all add: D_def ds_def)
  have val: "digits_value D = s"
    unfolding D_def ds_def by (rule digits_value_nat_to_string)
  note stop = number_end_stop [OF rest]
  note num = number_of_digits [OF s] number_of_digits0 [OF s]
  define A where "A \<longleftrightarrow> k \<le> n \<and> n \<le> 21"
  define B where "B \<longleftrightarrow> 0 < n \<and> n \<le> 21"
  define C where "C \<longleftrightarrow> - 6 < n \<and> n \<le> 0"
  define E where "E \<longleftrightarrow> k = 1"
  have dt: "decimal_text s n =
      (if A then ds @ replicate (nat (n - k)) CHR ''0''
       else if B then take (nat n) ds @ ''.'' @ drop (nat n) ds
       else if C then ''0.'' @ replicate (nat (- n)) CHR ''0'' @ ds
       else if E then ds @ exponent_text n
       else take 1 ds @ ''.'' @ drop 1 ds @ exponent_text n)"
    unfolding A_def B_def C_def E_def k_def ds_def decimal_text_def Let_def by (rule refl)
  consider (a) "A" | (b) "\<not> A" "B" | (c) "\<not> A" "\<not> B" "C"
    | (d) "\<not> A" "\<not> B" "\<not> C" "E" | (e) "\<not> A" "\<not> B" "\<not> C" "\<not> E"
    by blast
  then show ?thesis
  proof cases
    case a
    define z where "z = nat (n - k)"
    let ?I = "D @ replicate z (cu CHR ''0'')"
    have shape: "ascii (decimal_text s n) = ?I"
      using a by (simp add: dt D_def z_def ascii_def)
    from a have a': "k \<le> n" "n \<le> 21" by (simp_all add: A_def)
    have I1: "?I \<noteq> []" using neD by simp
    have I2: "list_all is_digit ?I"
      using D not_digit_literals(6) by (auto simp: list_all_iff)
    have I3: "hd ?I \<noteq> cu CHR ''0'' \<or> length ?I = 1" using hdD neD by simp
    have v: "digits_value (?I @ []) = s * 10 ^ z"
      by (simp add: digits_value_append val digits_value_zeros)
    have "parse_number ((if negative then [cu CHR ''-''] else []) @ ?I @ rest)
        = Some (JSNumber (number_of negative (digits_value (?I @ [])) (0 - int (length ([]::js_string)))), rest)"
      by (rule parse_number_parts [OF I1 I2 I3 stop parse_fraction_none [OF rest]
            parse_exponent_none [OF rest]])
    also have "number_of negative (digits_value (?I @ [])) (0 - int (length ([]::js_string)))
        = Decimal negative s n"
      unfolding v num(1) using a' by (simp add: z_def k_def ds_def)
    finally show ?thesis by (simp only: shape append_assoc)
  next
    case b
    define m where "m = nat n"
    from b have b': "\<not> k \<le> n" "0 < n" "n \<le> 21" by (simp_all add: A_def B_def)
    have m: "0 < m" "m < length D" using b' lenD by (simp_all add: m_def)
    let ?I = "take m D"
    let ?F = "drop m D"
    have shape: "ascii (decimal_text s n) = ?I @ cu CHR ''.'' # ?F"
      using b by (simp add: dt D_def m_def ascii_def take_map drop_map)
    have I1: "?I \<noteq> []" using m by auto
    have I2: "list_all is_digit ?I" by (rule Dt)
    have I3: "hd ?I \<noteq> cu CHR ''0'' \<or> length ?I = 1" using hdD m by (simp add: hd_take)
    have F1: "?F \<noteq> []" using m by simp
    have F2: "list_all is_digit ?F" by (rule Dd)
    have st: "takeWhile is_digit (cu CHR ''.'' # ?F @ rest) = []"
      by (simp add: not_digit_literals)
    have "parse_number ((if negative then [cu CHR ''-''] else []) @ ?I @ (cu CHR ''.'' # ?F @ rest))
        = Some (JSNumber (number_of negative (digits_value (?I @ ?F)) (0 - int (length ?F))), rest)"
      by (rule parse_number_parts [OF I1 I2 I3 st parse_fraction_some [OF F1 F2 stop]
            parse_exponent_none [OF rest]])
    also have "number_of negative (digits_value (?I @ ?F)) (0 - int (length ?F))
        = Decimal negative s n"
      unfolding append_take_drop_id val num(2) using b' m lenD
      by (simp add: m_def k_def ds_def)
    finally show ?thesis by (simp add: shape)
  next
    case c
    define z where "z = nat (- n)"
    let ?I = "[cu CHR ''0'']"
    let ?F = "replicate z (cu CHR ''0'') @ D"
    have shape: "ascii (decimal_text s n) = ?I @ cu CHR ''.'' # ?F"
      using c by (simp add: dt D_def z_def ascii_def)
    from c have c': "- 6 < n" "n \<le> 0" by (simp_all add: C_def)
    have I2: "list_all is_digit ?I" using not_digit_literals(6) by simp
    have F1: "?F \<noteq> []" using neD by simp
    have F2: "list_all is_digit ?F" using D not_digit_literals(6) by (auto simp: list_all_iff)
    have st: "takeWhile is_digit (cu CHR ''.'' # ?F @ rest) = []"
      by (simp add: not_digit_literals)
    have "?I @ ?F = replicate (Suc z) (cu CHR ''0'') @ D" by simp
    then have v: "digits_value (?I @ ?F) = s"
      by (simp only: digits_value_append digits_value_zeros val)
    have "parse_number ((if negative then [cu CHR ''-''] else []) @ ?I @ (cu CHR ''.'' # ?F @ rest))
        = Some (JSNumber (number_of negative (digits_value (?I @ ?F)) (0 - int (length ?F))), rest)"
      by (rule parse_number_parts [OF _ I2 _ st parse_fraction_some [OF F1 F2 stop]
            parse_exponent_none [OF rest]]) simp_all
    also have "number_of negative (digits_value (?I @ ?F)) (0 - int (length ?F))
        = Decimal negative s n"
      unfolding v num(2) using c' lenD by (simp add: z_def k_def ds_def)
    finally show ?thesis by (simp add: shape)
  next
    case d
    let ?t = "ascii (exponent_text n) @ rest"
    have shape: "ascii (decimal_text s n) = D @ ascii (exponent_text n)"
      using d by (simp add: dt D_def)
    from d have d': "k = 1" by (simp add: E_def)
    have I3: "hd D \<noteq> cu CHR ''0'' \<or> length D = 1" using hdD by simp
    have "parse_number ((if negative then [cu CHR ''-''] else []) @ D @ ?t)
        = Some (JSNumber (number_of negative (digits_value (D @ [])) (n - 1 - int (length ([]::js_string)))), rest)"
      by (rule parse_number_parts [OF neD D I3 stop_exponent_text parse_fraction_exponent_text
            parse_exponent_text [OF stop]])
    also have "number_of negative (digits_value (D @ [])) (n - 1 - int (length ([]::js_string)))
        = Decimal negative s n"
      using d' by (simp add: val num(2) k_def ds_def)
    finally show ?thesis by (simp add: shape)
  next
    case e
    let ?I = "take 1 D"
    let ?F = "drop 1 D"
    let ?t = "ascii (exponent_text n) @ rest"
    from e k1 lenD have len: "1 < length D" by (simp add: E_def)
    have shape: "ascii (decimal_text s n) = ?I @ cu CHR ''.'' # ?F @ ascii (exponent_text n)"
      using e by (simp add: dt D_def ascii_def take_map drop_map)
    have I1: "?I \<noteq> []" using neD by simp
    have I2: "list_all is_digit ?I" by (rule Dt)
    have I3: "hd ?I \<noteq> cu CHR ''0'' \<or> length ?I = 1" using len by simp
    have F1: "?F \<noteq> []" using len by simp
    have F2: "list_all is_digit ?F" by (rule Dd)
    have st: "takeWhile is_digit (cu CHR ''.'' # ?F @ ?t) = []"
      by (simp add: not_digit_literals)
    have "parse_number ((if negative then [cu CHR ''-''] else []) @ ?I @ (cu CHR ''.'' # ?F @ ?t))
        = Some (JSNumber (number_of negative (digits_value (?I @ ?F)) (n - 1 - int (length ?F))), rest)"
      by (rule parse_number_parts [OF I1 I2 I3 st parse_fraction_some [OF F1 F2 stop_exponent_text]
            parse_exponent_text [OF stop]])
    also have "number_of negative (digits_value (?I @ ?F)) (n - 1 - int (length ?F))
        = Decimal negative s n"
      unfolding append_take_drop_id val num(2) using len lenD
      by (simp add: k_def ds_def)
    finally show ?thesis by (simp add: shape)
  qed
qed

lemma parse_number_zero:
  assumes "number_end rest"
  shows "parse_number (cu CHR ''0'' # rest) = Some (JSNumber PosZero, rest)"
proof -
  have "parse_number ((if False then [cu CHR ''-''] else []) @ [cu CHR ''0''] @ rest)
      = Some (JSNumber (number_of False (digits_value ([cu CHR ''0''] @ [])) (0 - int (length ([]::js_string)))), rest)"
    by (rule parse_number_parts [OF _ _ _ number_end_stop [OF assms] parse_fraction_none [OF assms]
          parse_exponent_none [OF assms]]) (simp_all add: not_digit_literals)
  then show ?thesis
    by (simp add: number_of_def digits_value_def digit_val_cu)
qed

lemma parse_number_toString:
  assumes "isFinite x" "number_end rest"
  shows "parse_number (ascii (Number_toString x) @ rest) = Some (JSNumber (plain_zero x), rest)"
proof (cases x)
  case (Decimal negative s n)
  with assms(1) have s: "0 < s" "s mod 10 \<noteq> 0" by simp_all
  from parse_number_decimal [OF s assms(2), of negative n] Decimal
  show ?thesis by (cases negative) simp_all
qed (use assms in \<open>simp_all add: parse_number_zero\<close>)

lemma strip_zeros_value:
  "0 < m \<Longrightarrow> strip_zeros m = (s, t) \<Longrightarrow> m = s * 10 ^ t \<and> 0 < s \<and> s mod 10 \<noteq> 0"
proof (induction m arbitrary: s t rule: strip_zeros.induct)
  case (1 m)
  show ?case
  proof (cases "m mod 10 \<noteq> 0")
    case True
    with "1.prems" show ?thesis by (simp add: strip_zeros.simps [of m])
  next
    case False
    obtain s' t' where st: "strip_zeros (m div 10) = (s', t')"
      by (cases "strip_zeros (m div 10)")
    from False "1.prems"(1) have pos: "0 < m div 10" by (simp add: div_greater_zero_iff) arith
    from "1.prems" False st have s: "s = s'" and t: "t = Suc t'"
      by (simp_all add: strip_zeros.simps [of m])
    from "1.IH" [OF _ pos st] False "1.prems"(1)
    have "m div 10 = s' * 10 ^ t' \<and> 0 < s' \<and> s' mod 10 \<noteq> 0" by simp
    moreover from False have "m = m div 10 * 10" by presburger
    ultimately show ?thesis unfolding s t by simp
  qed
qed

lemma nat_to_string_times_10: "0 < x \<Longrightarrow> nat_to_string (x * 10) = nat_to_string x @ ''0''"
  by (simp add: nat_to_string.simps [of "x * 10"] digit_char_def)

lemma nat_to_string_power:
  "0 < s \<Longrightarrow> nat_to_string (s * 10 ^ t) = nat_to_string s @ replicate t CHR ''0''"
proof (induction t)
  case 0
  show ?case by simp
next
  case (Suc t)
  have e: "s * 10 ^ Suc t = (s * 10 ^ t) * 10" by simp
  have "nat_to_string (s * 10 ^ Suc t) = nat_to_string ((s * 10 ^ t) * 10)"
    by (simp only: e)
  also have "\<dots> = nat_to_string (s * 10 ^ t) @ ''0''"
    by (rule nat_to_string_times_10) (use Suc.prems in simp)
  also have "\<dots> = (nat_to_string s @ replicate t CHR ''0'') @ ''0''"
    by (simp only: Suc.IH [OF Suc.prems])
  also have "\<dots> = nat_to_string s @ replicate (Suc t) CHR ''0''"
    by (simp add: replicate_append_same)
  finally show ?case .
qed

lemma length_nat_to_string: "m < 10 ^ Suc j \<Longrightarrow> length (nat_to_string m) \<le> Suc j"
proof (induction j arbitrary: m)
  case 0
  then show ?case by (simp add: nat_to_string.simps [of m])
next
  case (Suc j)
  show ?case
  proof (cases "m < 10")
    case True
    then show ?thesis by (simp add: nat_to_string.simps [of m])
  next
    case False
    from Suc.prems have "m div 10 < 10 ^ Suc j" by (simp add: less_mult_imp_div_less)
    from Suc.IH [OF this] False show ?thesis by (simp add: nat_to_string.simps [of m])
  qed
qed

text \<open>
  For a positive integer below \<open>10^21\<close>, \<open>Number::toString\<close> writes the plain
  decimal digits, as \<open>number_to_string\<close> does.
\<close>

lemma Number_toString_integer:
  assumes "0 < m" "m < 10 ^ 21"
  shows "Number_toString (number_of negative m 0) = number_to_string (if negative then - int m else int m)"
proof -
  obtain s t where st: "strip_zeros m = (s, t)" by (cases "strip_zeros m")
  from strip_zeros_value [OF assms(1) st]
  have m: "m = s * 10 ^ t" and s: "0 < s" by simp_all
  have digits: "nat_to_string m = nat_to_string s @ replicate t CHR ''0''"
    unfolding m using s by (rule nat_to_string_power)
  from assms(2) have "length (nat_to_string m) \<le> 21"
    using length_nat_to_string [of m 20] by simp
  then have len: "int (length (nat_to_string s)) + int t \<le> 21"
    by (simp add: digits)
  have "decimal_text s (int (length (nat_to_string s)) + int t + 0) = nat_to_string m"
    using len by (simp add: decimal_text_def Let_def digits)
  with assms(1) show ?thesis
    by (simp add: number_of_def st number_to_string_def)
qed

text \<open>Some numerals, written and read.\<close>

lemma replicate_unfold: "0 < n \<Longrightarrow> replicate n x = x # replicate (n - 1) x"
  by (cases n) simp_all

lemma Number_toString_examples:
  "Number_toString (Decimal False 18 3) = ''180''"
  "Number_toString (Decimal False 1805 3) = ''180.5''"
  "Number_toString (Decimal True 45 2) = ''-45''"
  "Number_toString (Decimal False 5 0) = ''0.5''"
  "Number_toString (Decimal False 1 (- 5)) = ''0.000001''"
  "Number_toString (Decimal False 1 (- 6)) = ''1e-7''"
  "Number_toString (Decimal True 45 (- 6)) = ''-4.5e-7''"
  "Number_toString (Decimal False 1 21) = ''100000000000000000000''"
  "Number_toString (Decimal False 1 22) = ''1e+21''"
  "Number_toString (Decimal False 9007199254740992 16) = ''9007199254740992''"
  "Number_toString (Decimal False 9223372036854776 19) = ''9223372036854776000''"
  "Number_toString (Decimal False 15 301) = ''1.5e+300''"
  by (simp_all add: decimal_text_def exponent_text_def Let_def nat_to_string.simps
      digit_char_def replicate_unfold)

lemma parse_number_examples:
  "parse_number (ascii ''-12.50e+1'') = Some (JSNumber (Decimal True 125 3), [])"
  "parse_number (ascii ''1E2,'') = Some (JSNumber (Decimal False 1 3), ascii '','')"
  "parse_number (ascii ''-0'') = Some (JSNumber NegZero, [])"
  "parse_number (ascii ''01'') = None"
  "parse_number (ascii ''1.'') = None"
  "parse_number (ascii ''1e'') = None"
  by (simp_all add: parse_number_def parse_sign_def parse_int_def parse_fraction_def
      parse_exponent_def number_of_def digits_value_def is_digit_def digit_val_cu Let_def
      strip_zeros.simps nat_to_string.simps digit_char_def)

section \<open>Writing a string and reading it back\<close>

text \<open>
  What \<open>QuoteJSONString\<close> writes between the quotes is read back, code unit by code
  unit, as the string it was written from.
\<close>

lemma hex_val_cu:
  "hex_val (cu c) =
     (if (48::nat) \<le> of_char c \<and> (of_char c :: nat) \<le> 57 then Some (of_char c - 48)
      else if (97::nat) \<le> of_char c \<and> (of_char c :: nat) \<le> 102 then Some (of_char c - 87)
      else if (65::nat) \<le> of_char c \<and> (of_char c :: nat) \<le> 70 then Some (of_char c - 55)
      else None)"
  by (simp add: cu_def)

lemma hex_val_hex_digit_char: "d < 16 \<Longrightarrow> hex_val (cu (hex_digit_char d)) = Some d"
  unfolding hex_digit_char_def hex_val_cu digit_char_def
  by (simp split: if_splits; arith)

lemma of_char_less_256: "(of_char c :: nat) < 256"
proof -
  have "(of_char c :: nat) mod 256 < 256" by simp
  then show ?thesis by (simp only: of_char_mod_256)
qed

lemma char_of_hex_pair: "char_of ((of_char c :: nat) div 16 * 16 + of_char c mod 16) = c"
  by simp

lemma hex4_escape:
  "hex4 (cu (hex_digit_char (of_char h div 16))) (cu (hex_digit_char (of_char h mod 16)))
        (cu (hex_digit_char (of_char l div 16))) (cu (hex_digit_char (of_char l mod 16)))
     = Some (CodeUnit h l)"
proof -
  have "(of_char h :: nat) div 16 < 16" "(of_char l :: nat) div 16 < 16"
    using of_char_less_256 [of h] of_char_less_256 [of l]
    by (simp_all add: less_mult_imp_div_less)
  then have a: "hex_val (cu (hex_digit_char (of_char h div 16))) = Some (of_char h div 16)"
    and c: "hex_val (cu (hex_digit_char (of_char l div 16))) = Some (of_char l div 16)"
    by (simp_all only: hex_val_hex_digit_char)
  have b: "hex_val (cu (hex_digit_char (of_char h mod 16))) = Some (of_char h mod 16)"
    and d: "hex_val (cu (hex_digit_char (of_char l mod 16))) = Some (of_char l mod 16)"
    by (rule hex_val_hex_digit_char, simp)+
  show ?thesis
    unfolding hex4_def a b c d by (simp only: prod.case option.case char_of_hex_pair)
qed

lemma is_control_cu: "is_control (cu c) \<longleftrightarrow> (of_char c :: nat) < 32"
  by (simp add: cu_def)

lemma not_surrogate_cu: "\<not> is_lead_surrogate (cu c)" "\<not> is_trail_surrogate (cu c)"
  by (simp_all add: cu_def)

lemma parse_chars_escape:
  assumes "parse_chars s = Some (str, r)"
  shows "parse_chars (unicodeEscape c @ s) = Some (c # str, r)"
proof (cases c)
  case (CodeUnit h l)
  show ?thesis
    unfolding CodeUnit using assms by (simp add: hex4_escape)
qed

lemma parse_chars_literal:
  assumes "parse_chars s = Some (str, r)" "c \<noteq> cu (CHR 0x22)" "c \<noteq> cu (CHR 0x5C)" "\<not> is_control c"
  shows "parse_chars (c # s) = Some (c # str, r)"
  using assms by simp

lemma parse_chars_quote_unit:
  assumes "parse_chars s = Some (str, r)"
  shows "parse_chars (quote_unit c @ s) = Some (c # str, r)"
proof -
  consider (bs) "c = cu (CHR 0x08)" | (tab) "c = cu (CHR 0x09)" | (nl) "c = cu (CHR 0x0A)"
    | (ff) "c = cu (CHR 0x0C)" | (cr) "c = cu (CHR 0x0D)" | (dq) "c = cu (CHR 0x22)"
    | (bsl) "c = cu (CHR 0x5C)"
    | (esc) "c \<noteq> cu (CHR 0x08)" "c \<noteq> cu (CHR 0x09)" "c \<noteq> cu (CHR 0x0A)" "c \<noteq> cu (CHR 0x0C)"
        "c \<noteq> cu (CHR 0x0D)" "c \<noteq> cu (CHR 0x22)" "c \<noteq> cu (CHR 0x5C)"
        "is_control c \<or> is_lead_surrogate c \<or> is_trail_surrogate c"
    | (plain) "c \<noteq> cu (CHR 0x08)" "c \<noteq> cu (CHR 0x09)" "c \<noteq> cu (CHR 0x0A)" "c \<noteq> cu (CHR 0x0C)"
        "c \<noteq> cu (CHR 0x0D)" "c \<noteq> cu (CHR 0x22)" "c \<noteq> cu (CHR 0x5C)"
        "\<not> (is_control c \<or> is_lead_surrogate c \<or> is_trail_surrogate c)"
    by blast
  then show ?thesis
  proof cases
    case bs then show ?thesis using assms by (simp add: quote_unit_def unescape_def)
  next
    case tab then show ?thesis using assms by (simp add: quote_unit_def unescape_def)
  next
    case nl then show ?thesis using assms by (simp add: quote_unit_def unescape_def)
  next
    case ff then show ?thesis using assms by (simp add: quote_unit_def unescape_def)
  next
    case cr then show ?thesis using assms by (simp add: quote_unit_def unescape_def)
  next
    case dq then show ?thesis using assms by (simp add: quote_unit_def unescape_def)
  next
    case bsl then show ?thesis using assms by (simp add: quote_unit_def unescape_def)
  next
    case esc
    then have "quote_unit c = unicodeEscape c"
      by (simp add: quote_unit_def)
    then show ?thesis using parse_chars_escape [OF assms] by simp
  next
    case plain
    then have "quote_unit c = [c]"
      by (simp add: quote_unit_def)
    then show ?thesis using parse_chars_literal [OF assms plain(6,7)] plain(8) by simp
  qed
qed

lemma surrogate_literal:
  assumes "is_lead_surrogate c \<or> is_trail_surrogate c"
  shows "c \<noteq> cu (CHR 0x22)" "c \<noteq> cu (CHR 0x5C)" "\<not> is_control c"
  using assms by (cases c; auto simp: cu_def)+

lemma parse_chars_quoted:
  "parse_chars (quote_units s @ cu (CHR 0x22) # rest) = Some (s, rest)"
proof (induction s rule: quote_units.induct)
  case 1
  show ?case by simp
next
  case (2 c)
  have "parse_chars (cu (CHR 0x22) # rest) = Some ([], rest)" by simp
  from parse_chars_quote_unit [OF this, of c] show ?case by simp
next
  case (3 c d cs)
  show ?case
  proof (cases "is_lead_surrogate c \<and> is_trail_surrogate d")
    case True
    with 3 have ih: "parse_chars (quote_units cs @ cu (CHR 0x22) # rest) = Some (cs, rest)"
      by simp
    from True have c: "is_lead_surrogate c \<or> is_trail_surrogate c"
      and d: "is_lead_surrogate d \<or> is_trail_surrogate d" by simp_all
    note pd = parse_chars_literal [OF ih surrogate_literal [OF d]]
    note pc = parse_chars_literal [OF pd surrogate_literal [OF c]]
    from True pc show ?thesis by (simp del: parse_chars.simps)
  next
    case False
    with 3 have ih: "parse_chars (quote_units (d # cs) @ cu (CHR 0x22) # rest) = Some (d # cs, rest)"
      by simp
    from False have "quote_units (c # d # cs) = quote_unit c @ quote_units (d # cs)"
      by auto
    with parse_chars_quote_unit [OF ih, of c] show ?thesis
      by (simp del: parse_chars.simps quote_units.simps)
  qed
qed

lemma quoteJSONString_examples:
  "quoteJSONString [cu (CHR ''a''), cu (CHR 0x22), cu (CHR 0x0A), cu (CHR 0x1F)]
     = ascii [CHR 0x22, CHR ''a'', CHR 0x5C, CHR 0x22, CHR 0x5C, CHR ''n'',
              CHR 0x5C, CHR ''u'', CHR ''0'', CHR ''0'', CHR ''1'', CHR ''f'', CHR 0x22]"
  "quoteJSONString [CodeUnit (CHR 0xD8) (CHR 0x3D), CodeUnit (CHR 0xDE) (CHR 0x00)]
     = [cu (CHR 0x22), CodeUnit (CHR 0xD8) (CHR 0x3D), CodeUnit (CHR 0xDE) (CHR 0x00),
        cu (CHR 0x22)]"
  "quoteJSONString [CodeUnit (CHR 0xD8) (CHR 0x3D)]
     = ascii [CHR 0x22, CHR 0x5C, CHR ''u'', CHR ''d'', CHR ''8'', CHR ''3'', CHR ''d'', CHR 0x22]"
  by (simp_all add: quoteJSONString_def quote_unit_def cu_def hex_digit_char_def digit_char_def
      ascii_def)

section \<open>Reading a serialized value back\<close>

text \<open>
  For a value whose objects have pairwise different keys, \<open>JSON.parse\<close> reads the
  text that \<open>JSON.stringify\<close> wrote with a positive \<open>space\<close> back as
  \<open>json_of\<close> of the value, with no text left over and within the fuel it starts with.
\<close>

lemma skip_ws_spaces: "all_spaces w \<Longrightarrow> skip_ws (w @ s) = skip_ws s"
  by (induction w) (simp_all add: skip_ws_def all_spaces_def is_ws_def)

lemma skip_ws_newline: "skip_ws (cu (CHR 0x0A) # s) = skip_ws s"
  by (simp add: skip_ws_def is_ws_def)

lemma skip_ws_space: "skip_ws (cu (CHR '' '') # s) = skip_ws s"
  by (simp add: skip_ws_def is_ws_def)

lemma skip_ws_stop: "\<not> is_ws c \<Longrightarrow> skip_ws (c # s) = c # s"
  by (simp add: skip_ws_def)

lemma skip_ws_idem: "skip_ws (skip_ws s) = skip_ws s"
  unfolding skip_ws_def by (induction s) simp_all

lemma parse_value_skip_ws: "parse_value f (skip_ws s) = parse_value f s"
  by (cases f) (simp_all add: skip_ws_idem)

lemma parse_elements_skip_ws: "parse_elements f (skip_ws s) = parse_elements f s"
  by (cases f) (simp_all add: parse_value_skip_ws)

lemma parse_members_skip_ws: "parse_members f (skip_ws s) = parse_members f s"
  by (cases f) (simp_all add: skip_ws_idem)

lemma skip_ws_newline_spaces: "all_spaces w \<Longrightarrow> skip_ws (cu (CHR 0x0A) # w @ s) = skip_ws s"
  by (simp add: skip_ws_newline skip_ws_spaces)

lemma parse_value_spaces: "parse_value f (cu (CHR '' '') # s) = parse_value f s"
  using parse_value_skip_ws [of f "cu (CHR '' '') # s"] parse_value_skip_ws [of f s]
  by (simp add: skip_ws_space)

lemma parse_elements_indent:
  "all_spaces w \<Longrightarrow> parse_elements f (cu (CHR 0x0A) # w @ s) = parse_elements f s"
  using parse_elements_skip_ws [of f "cu (CHR 0x0A) # w @ s"] parse_elements_skip_ws [of f s]
  by (simp add: skip_ws_newline_spaces)

lemma parse_members_indent:
  "all_spaces w \<Longrightarrow> parse_members f (cu (CHR 0x0A) # w @ s) = parse_members f s"
  using parse_members_skip_ws [of f "cu (CHR 0x0A) # w @ s"] parse_members_skip_ws [of f s]
  by (simp add: skip_ws_newline_spaces)

lemma join_Cons: "join sep (p # ps) = p @ (if ps = [] then [] else sep @ join sep ps)"
  by (cases ps) simp_all

lemma serialize_None_iff: "serializeJSONProperty gap indent v = None \<longleftrightarrow> v = JSUndefined"
  by (cases v) (simp_all add: Let_def)

lemma members_empty_iff:
  "serializeJSONObject_members gap indent kvs = [] \<longleftrightarrow> json_of_members kvs = []"
proof (induction kvs)
  case Nil
  show ?case by simp
next
  case (Cons kv kvs)
  obtain k v where kv: "kv = (k, v)" by (cases kv)
  show ?case
  proof (cases "v = JSUndefined")
    case True
    with Cons kv show ?thesis by simp
  next
    case False
    then obtain strP where "serializeJSONProperty gap indent v = Some strP"
      using serialize_None_iff [of gap indent v] by (cases "serializeJSONProperty gap indent v") auto
    with False kv show ?thesis by simp
  qed
qed

lemma members_hd:
  "serializeJSONObject_members gap indent kvs = m # ms \<Longrightarrow> \<exists>t. m = cu (CHR 0x22) # t"
proof (induction kvs)
  case Nil
  then show ?case by simp
next
  case (Cons kv kvs)
  obtain k v where kv: "kv = (k, v)" by (cases kv)
  show ?case
  proof (cases "serializeJSONProperty gap indent v")
    case None
    with Cons kv show ?thesis by simp
  next
    case (Some strP)
    with Cons.prems kv show ?thesis by (auto simp: quoteJSONString_def)
  qed
qed

lemma not_digit_structural:
  "\<not> is_digit (cu (CHR '' ''))" "\<not> is_digit (cu (CHR 0x0A))" "\<not> is_digit (cu (CHR '',''))"
  "\<not> is_digit (cu (CHR '']''))" "\<not> is_digit (cu (CHR ''}''))" "\<not> is_digit (cu (CHR ''{''))"
  "\<not> is_digit (cu (CHR ''[''))" "\<not> is_digit (cu (CHR 0x22))" "\<not> is_digit (cu (CHR 0x09))"
  "\<not> is_digit (cu (CHR 0x0D))" "\<not> is_digit (cu (CHR ''t''))" "\<not> is_digit (cu (CHR ''f''))"
  "\<not> is_digit (cu (CHR ''n''))"
  by (simp_all add: is_digit_def digit_val_cu)

lemma digit_not_structural:
  assumes "is_digit c"
  shows "\<not> is_ws c" "c \<noteq> cu (CHR '']'')" "c \<noteq> cu (CHR ''{'')" "c \<noteq> cu (CHR ''['')"
    "c \<noteq> cu (CHR 0x22)"
  using assms not_digit_structural by (auto simp: is_ws_def)

lemma decimal_text_hd: "\<exists>c cs. decimal_text s n = c # cs \<and> is_digit (cu c)"
proof -
  obtain d ds where ds: "nat_to_string s = d # ds"
    using nat_to_string_nonempty [of s] by (cases "nat_to_string s") auto
  then have "is_digit (cu d)" using is_digit_nat_to_string [of d s] by simp
  then show ?thesis
    by (auto simp: decimal_text_def Let_def ds take_Cons' not_digit_literals)
qed

lemma Number_toString_hd:
  assumes "isFinite n"
  shows "\<exists>c cs. ascii (Number_toString n) = c # cs \<and> (c = cu (CHR ''-'') \<or> is_digit c)"
proof (cases n)
  case (Decimal negative s e)
  obtain c cs where "decimal_text s e = c # cs" "is_digit (cu c)"
    using decimal_text_hd [of s e] by blast
  with Decimal show ?thesis by (cases negative) simp_all
qed (use assms in \<open>simp_all add: not_digit_literals\<close>)

lemma parse_value_null:
  "parse_value (Suc f) (ascii ''null'' @ rest) = Some (JSNull, rest)"
  by (simp add: skip_ws_stop is_ws_def not_digit_structural)

lemma parse_value_boolean:
  "parse_value (Suc f) ((if b then ascii ''true'' else ascii ''false'') @ rest) = Some (JSBoolean b, rest)"
  by (simp add: skip_ws_stop is_ws_def not_digit_structural)

lemma parse_value_number:
  assumes "isFinite n" "number_end rest"
  shows "parse_value (Suc f) (ascii (Number_toString n) @ rest)
           = Some (JSNumber (plain_zero n), rest)"
proof -
  obtain c cs where cs: "ascii (Number_toString n) = c # cs"
    and c: "c = cu (CHR ''-'') \<or> is_digit c"
    using Number_toString_hd [OF assms(1)] by blast
  from c have ws: "\<not> is_ws c"
    and nb: "c \<noteq> cu (CHR ''{'')" "c \<noteq> cu (CHR ''['')" "c \<noteq> cu (CHR 0x22)"
    using digit_not_structural not_digit_structural by (auto simp: is_ws_def)
  have "parse_number (c # cs @ rest) = Some (JSNumber (plain_zero n), rest)"
    using parse_number_toString [OF assms] by (simp add: cs)
  with c ws nb show ?thesis
    by (auto simp: cs skip_ws_stop)
qed

lemma parse_value_string:
  "parse_value (Suc f) (quoteJSONString s @ rest) = Some (JSString s, rest)"
  by (simp add: quoteJSONString_def skip_ws_stop is_ws_def parse_chars_quoted)

lemma serialize_hd:
  assumes "serializeJSONProperty gap indent v = Some str"
  shows "\<exists>c cs. str = c # cs \<and> \<not> is_ws c \<and> c \<noteq> cu (CHR '']'')"
proof (cases v)
  case JSUndefined
  with assms show ?thesis by simp
next
  case JSNull
  with assms show ?thesis by (auto simp: is_ws_def)
next
  case (JSBoolean b)
  with assms show ?thesis by (auto simp: is_ws_def)
next
  case (JSNumber n)
  show ?thesis
  proof (cases "isFinite n")
    case True
    obtain c cs where "ascii (Number_toString n) = c # cs"
      and "c = cu (CHR ''-'') \<or> is_digit c"
      using Number_toString_hd [OF True] by blast
    with assms JSNumber True show ?thesis
      using digit_not_structural by (auto simp: is_ws_def)
  next
    case False
    with assms JSNumber show ?thesis by (auto simp: is_ws_def)
  qed
next
  case (JSString s)
  with assms show ?thesis by (auto simp: quoteJSONString_def is_ws_def)
next
  case (JSArray vs)
  with assms show ?thesis by (auto simp: Let_def is_ws_def split: if_splits)
next
  case (JSObject kvs)
  with assms show ?thesis by (auto simp: Let_def is_ws_def split: if_splits)
qed

lemma obj_put_fresh: "k \<notin> fst ` set acc \<Longrightarrow> obj_put acc k v = acc @ [(k, v)]"
  by (induction acc) auto

lemma foldl_obj_put_distinct:
  "distinct (map fst (acc @ kvs)) \<Longrightarrow>
     foldl (\<lambda>acc (k, v). obj_put acc k v) acc kvs = acc @ kvs"
proof (induction kvs arbitrary: acc)
  case Nil
  show ?case by simp
next
  case (Cons kv kvs)
  obtain k v where kv: "kv = (k, v)" by (cases kv)
  from Cons.prems kv have fresh: "k \<notin> fst ` set acc" by auto
  from Cons.prems kv have "distinct (map fst ((acc @ [(k, v)]) @ kvs))" by simp
  then have "foldl (\<lambda>acc (k, v). obj_put acc k v) (acc @ [(k, v)]) kvs = (acc @ [(k, v)]) @ kvs"
    by (rule Cons.IH)
  with fresh kv show ?case by (simp add: obj_put_fresh)
qed

lemma object_of_distinct: "distinct (map fst kvs) \<Longrightarrow> object_of kvs = kvs"
  using foldl_obj_put_distinct [of "[]" kvs] by (simp add: object_of_def)

lemma number_end_literals:
  "number_end (cu (CHR 0x0A) # s)" "number_end (cu (CHR '','') # s)" "number_end (cu (CHR '']'') # s)"
  "number_end (cu (CHR ''}'') # s)" "number_end []"
  by (simp_all add: number_end_def not_digit_structural)

lemma parse_value_array:
  assumes "skip_ws cs = c' # cs'" "c' \<noteq> cu (CHR '']'')"
  shows "parse_value (Suc f) (cu (CHR ''['') # cs)
           = map_option (\<lambda>(vs, r). (JSArray vs, r)) (parse_elements f cs)"
  by (simp add: skip_ws_stop is_ws_def assms)

lemma parse_value_object:
  assumes "skip_ws cs = c' # cs'" "c' \<noteq> cu (CHR ''}'')"
  shows "parse_value (Suc f) (cu (CHR ''{'') # cs)
           = map_option (\<lambda>(kvs, r). (JSObject (object_of kvs), r)) (parse_members f cs)"
  by (simp add: skip_ws_stop is_ws_def assms)

lemma parse_roundtrip:
  fixes gap :: js_string
  assumes gap: "all_spaces gap" "gap \<noteq> []"
  shows "distinct_keys v \<Longrightarrow> all_spaces indent \<Longrightarrow>
           serializeJSONProperty gap indent v = Some str \<Longrightarrow> need v \<le> f \<Longrightarrow>
           number_end rest \<Longrightarrow>
           parse_value f (str @ rest) = Some (json_of v, rest)"
    and "distinct_keys_elements vs \<Longrightarrow> vs \<noteq> [] \<Longrightarrow> all_spaces indent \<Longrightarrow> all_spaces w \<Longrightarrow>
           need_elements vs \<le> f \<Longrightarrow>
           parse_elements f
             (join (ascii '','' @ [cu (CHR 0x0A)] @ indent) (serializeJSONArray_elements gap indent vs)
                @ cu (CHR 0x0A) # w @ cu (CHR '']'') # rest)
           = Some (json_of_elements vs, rest)"
    and "distinct_keys_members kvs \<Longrightarrow> serializeJSONObject_members gap indent kvs \<noteq> [] \<Longrightarrow>
           all_spaces indent \<Longrightarrow> all_spaces w \<Longrightarrow> need_members kvs \<le> f \<Longrightarrow>
           parse_members f
             (join (ascii '','' @ [cu (CHR 0x0A)] @ indent) (serializeJSONObject_members gap indent kvs)
                @ cu (CHR 0x0A) # w @ cu (CHR ''}'') # rest)
           = Some (json_of_members kvs, rest)"
proof (induction v and vs and kvs
    arbitrary: indent str f rest and indent w f rest and indent w f rest
    rule: need_need_elements_need_members.induct)
  case (6 vs)
  from "6.prems" obtain f' where f: "f = Suc f'" and f': "need_elements vs \<le> f'"
    by (cases f) auto
  let ?ind = "indent @ gap"
  have ind: "all_spaces ?ind" using "6.prems"(2) gap by (auto simp: all_spaces_def)
  show ?case
  proof (cases "vs = []")
    case True
    with "6.prems"(3) have "str = ascii ''[]''" by simp
    then show ?thesis using True f by (simp add: skip_ws_stop is_ws_def)
  next
    case False
    then obtain v vs' where vs: "vs = v # vs'" by (cases vs) auto
    let ?partial = "serializeJSONArray_elements gap ?ind vs"
    let ?sep = "ascii '','' @ [cu (CHR 0x0A)] @ ?ind"
    have ne: "?partial \<noteq> []" using vs by simp
    have str: "str = cu (CHR ''['') # cu (CHR 0x0A) # ?ind @ join ?sep ?partial @ cu (CHR 0x0A) # indent @ ascii '']''"
      using "6.prems"(3) ne gap(2) by (simp add: Let_def)
    obtain p ps where partial: "?partial = p # ps" using ne by (cases ?partial) auto
    have "\<exists>c cs. p = c # cs \<and> \<not> is_ws c \<and> c \<noteq> cu (CHR '']'')"
    proof (cases "serializeJSONProperty gap ?ind v")
      case None
      with partial vs show ?thesis by (auto simp: is_ws_def)
    next
      case (Some s)
      with partial vs have "p = s" by simp
      with Some serialize_hd show ?thesis by blast
    qed
    then obtain c cs where p: "p = c # cs" and c: "\<not> is_ws c" "c \<noteq> cu (CHR '']'')" by blast
    let ?body = "join ?sep ?partial @ cu (CHR 0x0A) # indent @ cu (CHR '']'') # rest"
    have body: "?body = c # (cs @ (if ps = [] then [] else ?sep @ join ?sep ps)
                  @ cu (CHR 0x0A) # indent @ cu (CHR '']'') # rest)"
      by (simp add: partial join_Cons p)
    have skip: "skip_ws (cu (CHR 0x0A) # ?ind @ ?body) = ?body"
      unfolding skip_ws_newline_spaces [OF ind] by (subst (1 2) body) (simp add: skip_ws_stop c)
    have elems: "parse_elements f' (cu (CHR 0x0A) # ?ind @ ?body) = Some (json_of_elements vs, rest)"
      unfolding parse_elements_indent [OF ind]
      using "6.IH" [of ?ind indent f' rest] "6.prems"(1,2) False ind f' by simp
    have "parse_value (Suc f') (cu (CHR ''['') # cu (CHR 0x0A) # ?ind @ ?body)
            = Some (JSArray (json_of_elements vs), rest)"
      unfolding parse_value_array [OF trans [OF skip body] c(2), of f'] elems by simp
    then show ?thesis by (simp del: parse_value.simps add: str f)
  qed
next
  case (7 kvs)
  from "7.prems" obtain f' where f: "f = Suc f'" and f': "need_members kvs \<le> f'"
    by (cases f) auto
  let ?ind = "indent @ gap"
  have ind: "all_spaces ?ind" using "7.prems"(2) gap by (auto simp: all_spaces_def)
  let ?partial = "serializeJSONObject_members gap ?ind kvs"
  from "7.prems"(1) have dist: "distinct (map fst (json_of_members kvs))"
    and dk: "distinct_keys_members kvs" by simp_all
  show ?case
  proof (cases "?partial = []")
    case True
    with "7.prems"(3) have "str = ascii ''{}''" by (simp add: Let_def)
    moreover from True have "json_of_members kvs = []" by (simp add: members_empty_iff)
    ultimately show ?thesis using f by (simp add: skip_ws_stop is_ws_def)
  next
    case False
    let ?sep = "ascii '','' @ [cu (CHR 0x0A)] @ ?ind"
    have str: "str = cu (CHR ''{'') # cu (CHR 0x0A) # ?ind @ join ?sep ?partial @ cu (CHR 0x0A) # indent @ ascii ''}''"
      using "7.prems"(3) False gap(2) by (simp add: Let_def)
    obtain p ps where partial: "?partial = p # ps" using False by (cases ?partial) auto
    then obtain t where p: "p = cu (CHR 0x22) # t" using members_hd by blast
    let ?body = "join ?sep ?partial @ cu (CHR 0x0A) # indent @ cu (CHR ''}'') # rest"
    have body: "?body = cu (CHR 0x22) # (t @ (if ps = [] then [] else ?sep @ join ?sep ps)
                  @ cu (CHR 0x0A) # indent @ cu (CHR ''}'') # rest)"
      by (simp add: partial join_Cons p)
    have skip: "skip_ws (cu (CHR 0x0A) # ?ind @ ?body) = ?body"
      unfolding skip_ws_newline_spaces [OF ind] by (subst (1 2) body) (simp add: skip_ws_stop is_ws_def)
    have membs: "parse_members f' (cu (CHR 0x0A) # ?ind @ ?body) = Some (json_of_members kvs, rest)"
      unfolding parse_members_indent [OF ind]
      using "7.IH" [of ?ind indent f' rest] dk "7.prems"(2) False ind f' by simp
    have "parse_value (Suc f') (cu (CHR ''{'') # cu (CHR 0x0A) # ?ind @ ?body)
            = Some (JSObject (json_of_members kvs), rest)"
    proof -
      have q: "cu (CHR 0x22) \<noteq> cu (CHR ''}'')" by simp
      show ?thesis
        unfolding parse_value_object [OF trans [OF skip body] q, of f'] membs
        by (simp add: object_of_distinct [OF dist])
    qed
    then show ?thesis by (simp del: parse_value.simps add: str f)
  qed
next
  case 1
  then show ?case by simp
next
  case 2
  then obtain f' where "f = Suc f'" by (cases f) auto
  with 2 show ?case using parse_value_null [of f' rest] by simp
next
  case (3 b)
  then obtain f' where "f = Suc f'" by (cases f) auto
  with 3 show ?case using parse_value_boolean [of f' b rest] by auto
next
  case (4 n)
  then obtain f' where f: "f = Suc f'" by (cases f) auto
  show ?case
  proof (cases "isFinite n")
    case True
    with 4 f show ?thesis using parse_value_number [of n rest f'] by simp
  next
    case False
    with 4 f show ?thesis using parse_value_null [of f' rest] by auto
  qed
next
  case (5 s)
  then obtain f' where "f = Suc f'" by (cases f) auto
  with 5 show ?case using parse_value_string [of f' s rest] by simp
next
  case 8
  then show ?case by simp
next
  case (9 v vs)
  from "9.prems" obtain f' where f: "f = Suc f'" and fv: "need v \<le> f'"
    and fvs: "need_elements vs \<le> f'"
    by (cases f) auto
  let ?sep = "ascii '','' @ [cu (CHR 0x0A)] @ indent"
  let ?p = "case serializeJSONProperty gap indent v of None \<Rightarrow> ascii ''null'' | Some strP \<Rightarrow> strP"
  have pval: "parse_value f' (?p @ r1) = Some (json_of v, r1)" if "number_end r1" for r1
  proof (cases "serializeJSONProperty gap indent v")
    case None
    then have "v = JSUndefined" by (simp add: serialize_None_iff)
    moreover from fv obtain g where "f' = Suc g" by (cases f'; cases v) auto
    ultimately show ?thesis using None parse_value_null [of g r1] by simp
  next
    case (Some s)
    with "9.IH"(1) [of indent s f' r1] "9.prems"(1,3) fv that show ?thesis by simp
  qed
  show ?case
  proof (cases "vs = []")
    case True
    let ?tail = "cu (CHR 0x0A) # w @ cu (CHR '']'') # rest"
    have "parse_value f' (?p @ ?tail) = Some (json_of v, ?tail)"
      by (rule pval) (rule number_end_literals)
    moreover have "skip_ws ?tail = cu (CHR '']'') # rest"
      using "9.prems"(4) by (simp add: skip_ws_newline_spaces skip_ws_stop is_ws_def)
    ultimately show ?thesis using True f by simp
  next
    case False
    let ?rest = "join ?sep (serializeJSONArray_elements gap indent vs) @ cu (CHR 0x0A) # w @ cu (CHR '']'') # rest"
    let ?tail = "cu (CHR '','') # cu (CHR 0x0A) # indent @ ?rest"
    have "parse_value f' (?p @ ?tail) = Some (json_of v, ?tail)"
      by (rule pval) (rule number_end_literals)
    moreover have "skip_ws ?tail = ?tail"
      by (simp add: skip_ws_stop is_ws_def)
    moreover have "parse_elements f' (cu (CHR 0x0A) # indent @ ?rest) = Some (json_of_elements vs, rest)"
      unfolding parse_elements_indent [OF "9.prems"(3)]
      using "9.IH"(2) [of indent w f' rest] "9.prems"(1,3,4) False fvs by simp
    moreover have "serializeJSONArray_elements gap indent vs \<noteq> []"
      using False by (cases vs) auto
    ultimately show ?thesis using f by (simp add: join_Cons)
  qed
next
  case 10
  then show ?case by simp
next
  case (11 k v kvs)
  show ?case
  proof (cases "v = JSUndefined")
    case True
    with "11.IH"(1) [of indent w f rest] "11.prems" show ?thesis by simp
  next
    case False
    then obtain strP where strP: "serializeJSONProperty gap indent v = Some strP"
      using serialize_None_iff [of gap indent v] by (cases "serializeJSONProperty gap indent v") auto
    from "11.prems" False obtain f' where f: "f = Suc f'" and fv: "need v \<le> f'"
      and fkvs: "need_members kvs \<le> f'"
      by (cases f) auto
    let ?sep = "ascii '','' @ [cu (CHR 0x0A)] @ indent"
    let ?ms = "serializeJSONObject_members gap indent kvs"
    have pval: "parse_value f' (cu (CHR '' '') # strP @ r1) = Some (json_of v, r1)"
      if "number_end r1" for r1
      unfolding parse_value_spaces
      using "11.IH"(2) [OF False, of indent strP f' r1] "11.prems"(1,3) strP fv that by simp
    have key: "parse_chars (quote_units k @ cu (CHR 0x22) # s) = Some (k, s)" for s
      by (rule parse_chars_quoted)
    have member: "parse_members (Suc f')
        ((quoteJSONString k @ ascii '': '' @ strP) @ r1)
        = (case skip_ws r1 of
             [] \<Rightarrow> None
           | c # cs \<Rightarrow>
               if c = cu (CHR '','') then
                 map_option (\<lambda>(kvs, r'). ((k, json_of v) # kvs, r')) (parse_members f' cs)
               else if c = cu (CHR ''}'') then Some ([(k, json_of v)], cs)
               else None)"
      if "number_end r1" for r1
      by (simp add: quoteJSONString_def skip_ws_stop is_ws_def key pval [OF that])
    show ?thesis
    proof (cases "?ms = []")
      case True
      let ?tail = "cu (CHR 0x0A) # w @ cu (CHR ''}'') # rest"
      have "skip_ws ?tail = cu (CHR ''}'') # rest"
        using "11.prems"(4) by (simp add: skip_ws_newline_spaces skip_ws_stop is_ws_def)
      moreover from True have "json_of_members kvs = []" by (simp add: members_empty_iff)
      ultimately show ?thesis
        using member [of ?tail] True False strP f gap(2)
        by (simp add: number_end_literals)
    next
      case ne: False
      let ?rest = "join ?sep ?ms @ cu (CHR 0x0A) # w @ cu (CHR ''}'') # rest"
      let ?tail = "cu (CHR '','') # cu (CHR 0x0A) # indent @ ?rest"
      have "skip_ws ?tail = ?tail"
        by (simp add: skip_ws_stop is_ws_def)
      moreover have "parse_members f' (cu (CHR 0x0A) # indent @ ?rest) = Some (json_of_members kvs, rest)"
        unfolding parse_members_indent [OF "11.prems"(3)]
        using "11.IH"(3) [OF False, of indent w f' rest] "11.prems"(1,3,4) ne fkvs by simp
      ultimately show ?thesis
        using member [of ?tail] ne False strP f gap(2)
        by (simp add: number_end_literals join_Cons)
    qed
  qed
qed

lemma join_length_ge:
  "sep \<noteq> [] \<Longrightarrow> ps \<noteq> [] \<Longrightarrow>
     sum_list (map length ps) + length ps \<le> Suc (length (join sep ps))"
proof (induction sep ps rule: join.induct)
  case (1 sep)
  then show ?case by simp
next
  case (2 sep s)
  show ?case by simp
next
  case (3 sep s t ss)
  from "3.prems"(1) have "1 \<le> length sep" by (cases sep) auto
  with 3 show ?case by simp
qed

lemma elements_length: "length (serializeJSONArray_elements gap indent vs) = length vs"
  by (induction vs) simp_all

lemma quoteJSONString_length: "2 \<le> length (quoteJSONString s)"
  by (simp add: quoteJSONString_def)

lemma Number_toString_length: "isFinite n \<Longrightarrow> 1 \<le> length (Number_toString n)"
  using Number_toString_hd [of n] length_ascii [of "Number_toString n"]
  by (cases "Number_toString n") auto

lemma bracketed_length:
  assumes "ps \<noteq> []" "n \<le> sum_list (map length ps) + length ps"
  shows "Suc n \<le> length
           (if gap = [] then [l] @ join (ascii '','') ps @ [r]
            else [l] @ [cu (CHR 0x0A)] @ ind @ join (ascii '','' @ [cu (CHR 0x0A)] @ ind) ps
                   @ [cu (CHR 0x0A)] @ stepback @ [r])"
proof (cases "gap = []")
  case True
  have "sum_list (map length ps) + length ps \<le> Suc (length (join (ascii '','') ps))"
    using assms(1) by (intro join_length_ge) simp_all
  with assms True show ?thesis by simp
next
  case False
  have "sum_list (map length ps) + length ps \<le> Suc (length (join (ascii '','' @ [cu (CHR 0x0A)] @ ind) ps))"
    using assms(1) by (intro join_length_ge) simp_all
  with assms False show ?thesis by simp
qed

lemma need_le_length:
  shows "serializeJSONProperty gap indent v = Some str \<Longrightarrow> need v \<le> length str"
    and "need_elements vs
           \<le> sum_list (map length (serializeJSONArray_elements gap indent vs)) + length vs"
    and "need_members kvs
           \<le> sum_list (map length (serializeJSONObject_members gap indent kvs))
               + length (serializeJSONObject_members gap indent kvs)"
proof (induction v and vs and kvs arbitrary: indent str and indent and indent
    rule: need_need_elements_need_members.induct)
  case (6 vs)
  let ?ps = "serializeJSONArray_elements gap (indent @ gap) vs"
  show ?case
  proof (cases "?ps = []")
    case True
    then have "vs = []" using elements_length [of gap "indent @ gap" vs] by simp
    with "6.prems" show ?thesis by auto
  next
    case False
    have "need_elements vs \<le> sum_list (map length ?ps) + length ?ps"
      using "6.IH" [of "indent @ gap"] by (simp add: elements_length)
    from bracketed_length [OF False this, of gap "cu (CHR ''['')" "cu (CHR '']'')" "indent @ gap" indent]
    show ?thesis using "6.prems" False by (simp add: Let_def split: if_splits)
  qed
next
  case (7 kvs)
  let ?ps = "serializeJSONObject_members gap (indent @ gap) kvs"
  show ?case
  proof (cases "?ps = []")
    case True
    with "7.IH" [of "indent @ gap"] "7.prems" show ?thesis by (auto simp: Let_def)
  next
    case False
    from bracketed_length [OF False "7.IH", of gap "cu (CHR ''{'')" "cu (CHR ''}'')" "indent @ gap" indent]
    show ?thesis using "7.prems" False by (simp add: Let_def split: if_splits)
  qed
next
  case 1
  then show ?case by simp
next
  case 2
  then show ?case by auto
next
  case (3 b)
  then show ?case by auto
next
  case (4 n)
  then show ?case using Number_toString_length [of n] by (cases "isFinite n") auto
next
  case (5 s)
  then show ?case using quoteJSONString_length [of s] by auto
next
  case 8
  show ?case by simp
next
  case (9 v vs)
  have "need v \<le> length (case serializeJSONProperty gap indent v of
                             None \<Rightarrow> ascii ''null'' | Some strP \<Rightarrow> strP)"
  proof (cases "serializeJSONProperty gap indent v")
    case None
    then have "v = JSUndefined" by (simp add: serialize_None_iff)
    with None show ?thesis by simp
  next
    case (Some s)
    with "9.IH"(1) [of indent s] show ?thesis by simp
  qed
  with "9.IH"(2) [of indent] show ?case by simp
next
  case 10
  show ?case by simp
next
  case (11 k v kvs)
  show ?case
  proof (cases "v = JSUndefined")
    case True
    with "11.IH"(1) [of indent] show ?thesis by simp
  next
    case False
    then obtain strP where strP: "serializeJSONProperty gap indent v = Some strP"
      using serialize_None_iff [of gap indent v] by (cases "serializeJSONProperty gap indent v") auto
    from "11.IH"(2) [OF False strP] "11.IH"(3) [OF False, of indent] False strP
    show ?thesis by simp
  qed
qed

lemma JSON_parse_stringify:
  assumes "distinct_keys v" "JSON_stringify v space = Some str" "0 < space"
  shows "JSON_parse str = Some (json_of v)"
proof -
  let ?gap = "replicate (min space 10) (cu (CHR '' ''))"
  have gap: "all_spaces ?gap" "?gap \<noteq> []"
    using assms(3) by (auto simp: all_spaces_def)
  have str: "serializeJSONProperty ?gap [] v = Some str"
    using assms(2) by (simp add: JSON_stringify_def)
  then have "need v \<le> Suc (length str)"
    using need_le_length(1) [of ?gap "[]" v str] by simp
  with parse_roundtrip(1) [OF gap assms(1) _ str, of "Suc (length str)" "[]"]
  have "parse_value (Suc (length str)) str = Some (json_of v, [])"
    by (simp add: all_spaces_def number_end_literals del: parse_value.simps)
  then show ?thesis by (simp add: JSON_parse_def skip_ws_def del: parse_value.simps)
qed

section \<open>The text of the export document\<close>

text \<open>
  The text \<open>JSON.stringify(flowData, null, 2)\<close> is \<open>document_layout\<close>, and it is
  read back as the snapshots of the nodes and edges.
\<close>

lemma gap2: "replicate 2 (cu (CHR '' '')) = ascii ''  ''"
  by (simp add: numeral_2_eq_2)

lemma quote_keys:
  "quoteJSONString (ascii ''id'') = dq ''id''" "quoteJSONString (ascii ''type'') = dq ''type''"
  "quoteJSONString (ascii ''position'') = dq ''position''" "quoteJSONString (ascii ''data'') = dq ''data''"
  "quoteJSONString (ascii ''x'') = dq ''x''" "quoteJSONString (ascii ''y'') = dq ''y''"
  "quoteJSONString (ascii ''text'') = dq ''text''" "quoteJSONString (ascii ''source'') = dq ''source''"
  "quoteJSONString (ascii ''target'') = dq ''target''" "quoteJSONString (ascii ''nodes'') = dq ''nodes''"
  "quoteJSONString (ascii ''edges'') = dq ''edges''"
  by (simp_all add: quoteJSONString_def quote_unit_def dq_def is_control_cu not_surrogate_cu)

lemmas quote_keys_units = quote_keys [simplified]

lemma serialize_number:
  "serializeJSONProperty gap indent (JSNumber n) = Some (number_layout n)"
  by (simp add: number_layout_def)

lemma serialize_cleanNode:
  "serializeJSONProperty (ascii ''  '') (ascii ''    '') (cleanNode node) = Some (node_layout node)"
proof (cases "node_type node")
  case None
  then show ?thesis
    by (simp add: cleanNode_def node_layout_def Let_def quote_keys_units serialize_number
        del: serializeJSONProperty.simps(4))
next
  case (Some t)
  then show ?thesis
    by (simp add: cleanNode_def node_layout_def Let_def quote_keys_units serialize_number
        del: serializeJSONProperty.simps(4))
qed

lemma serialize_cleanEdge:
  "serializeJSONProperty (ascii ''  '') (ascii ''    '') (cleanEdge edge) = Some (edge_layout edge)"
  by (simp add: cleanEdge_def edge_layout_def Let_def quote_keys_units)

lemma elements_cleanNodes:
  "serializeJSONArray_elements (ascii ''  '') (ascii ''    '') (map cleanNode nodes) = map node_layout nodes"
  by (induction nodes) (simp_all add: serialize_cleanNode [simplified])

lemma elements_cleanEdges:
  "serializeJSONArray_elements (ascii ''  '') (ascii ''    '') (map cleanEdge edges) = map edge_layout edges"
  by (induction edges) (simp_all add: serialize_cleanEdge [simplified])

lemma serialize_node_array:
  "serializeJSONProperty (ascii ''  '') (ascii ''  '') (JSArray (map cleanNode nodes))
     = Some (array_layout (map node_layout nodes))"
  using elements_cleanNodes [of nodes]
  by (simp add: Let_def array_layout_def)

lemma serialize_edge_array:
  "serializeJSONProperty (ascii ''  '') (ascii ''  '') (JSArray (map cleanEdge edges))
     = Some (array_layout (map edge_layout edges))"
  using elements_cleanEdges [of edges]
  by (simp add: Let_def array_layout_def)

lemma stringify_flowData:
  "JSON_stringify (flowData nodes edges) 2 = Some (document_layout nodes edges)"
  using serialize_node_array [of nodes] serialize_edge_array [of edges]
  by (simp add: JSON_stringify_def gap2 flowData_def Let_def document_layout_def quote_keys_units
      del: serializeJSONProperty.simps(6))

lemma json_of_elements_map: "json_of_elements vs = map json_of vs"
  by (induction vs) simp_all

lemma distinct_keys_elements_map:
  "(\<And>a. distinct_keys (g a)) \<Longrightarrow> distinct_keys_elements (map g as)"
  by (induction as) simp_all

lemma distinct_keys_cleanNode: "distinct_keys (cleanNode node)"
  by (cases "node_type node") (simp_all add: cleanNode_def)

lemma distinct_keys_cleanEdge: "distinct_keys (cleanEdge edge)"
  by (simp add: cleanEdge_def)

lemma distinct_keys_flowData: "distinct_keys (flowData nodes edges)"
  by (simp add: flowData_def Let_def distinct_keys_elements_map
      distinct_keys_cleanNode distinct_keys_cleanEdge)

lemma json_of_cleanEdge: "json_of (cleanEdge edge) = edge_snapshot edge"
  by (simp add: cleanEdge_def edge_snapshot_def)

lemma json_of_cleanNode_finite:
  assumes "isFinite (pos_x (position node))" "isFinite (pos_y (position node))"
  shows "json_of (cleanNode node) = node_snapshot node"
  using assms by (cases "node_type node") (simp_all add: cleanNode_def node_snapshot_def)

lemma object_keys_cleanNode:
  "object_keys (json_of (cleanNode node))
     = (case node_type node of
          None \<Rightarrow> [ascii ''id'', ascii ''position'', ascii ''data'']
        | Some t \<Rightarrow> [ascii ''id'', ascii ''type'', ascii ''position'', ascii ''data''])"
  by (cases "node_type node") (simp_all add: cleanNode_def)

lemma json_of_flowData:
  "json_of (flowData nodes edges)
     = JSObject [(ascii ''nodes'', JSArray (map (\<lambda>node. json_of (cleanNode node)) nodes)),
                 (ascii ''edges'', JSArray (map edge_snapshot edges))]"
  by (simp add: flowData_def Let_def json_of_elements_map comp_def json_of_cleanEdge)

lemma exportFlowAsJSON_content:
  "dl_content (exportFlowAsJSON nodes edges today) = document_layout nodes edges"
  by (simp add: exportFlowAsJSON_def triggerDownload_def stringify_flowData)

lemma parse_exported_document:
  "JSON_parse (dl_content (exportFlowAsJSON nodes edges today))
     = Some (JSObject [(ascii ''nodes'', JSArray (map (\<lambda>node. json_of (cleanNode node)) nodes)),
                       (ascii ''edges'', JSArray (map edge_snapshot edges))])"
proof -
  have "JSON_parse (document_layout nodes edges) = Some (json_of (flowData nodes edges))"
    by (rule JSON_parse_stringify [OF distinct_keys_flowData stringify_flowData]) simp
  then show ?thesis by (simp only: exportFlowAsJSON_content json_of_flowData)
qed

section \<open>JSON export theorems\<close>

text \<open>
  C5, as stated, fails for a graph with a non-finite coordinate: \<open>JSON.stringify\<close>
  writes \<open>NaN\<close> as \<open>null\<close>, so the re-read document holds \<open>null\<close> where the
  node had \<open>NaN\<close>.
\<close>

theorem exportFlowAsJSON_roundtrip_counterexample:
  "JSON_parse (dl_content (exportFlowAsJSON
      [\<lparr>node_id = ascii ''node_1'', node_type = Some (ascii ''textNode''),
        position = \<lparr>pos_x = NaN, pos_y = Decimal False 3 2\<rparr>,
        data = \<lparr>data_text = ascii ''hi''\<rparr>, selected = None, dragging = None\<rparr>]
      [] \<lparr>getFullYear = 2026, getMonth = 10, getDate = 2\<rparr>))
   = Some (JSObject
       [(ascii ''nodes'', JSArray
           [JSObject
              [(ascii ''id'', JSString (ascii ''node_1'')),
               (ascii ''type'', JSString (ascii ''textNode'')),
               (ascii ''position'',
                  JSObject [(ascii ''x'', JSNull), (ascii ''y'', JSNumber (Decimal False 3 2))]),
               (ascii ''data'', JSObject [(ascii ''text'', JSString (ascii ''hi''))])]]),
        (ascii ''edges'', JSArray [])])
   \<and> JSNull \<noteq> JSNumber NaN"
  by (simp add: parse_exported_document cleanNode_def)

text \<open>
  C5, amended. For every graph whose node coordinates are finite numbers (integers or not,
  of any size and sign), whatever code units its ids and texts consist of, re-reading the
  document that \<open>exportFlowAsJSON\<close> wrote yields, node by node and edge by edge in the
  original order, the same node ids, positions and payload texts and the same edge
  (id, source, target) triples, and no other field: no selection or drag flag, no handle.
  A coordinate \<open>-0\<close> is read back as \<open>0\<close>.
\<close>

theorem exportFlowAsJSON_roundtrip:
  assumes "\<forall>node \<in> set nodes.
             isFinite (pos_x (position node)) \<and> isFinite (pos_y (position node))"
  shows "JSON_parse (dl_content (exportFlowAsJSON nodes edges today))
           = Some (JSObject [(ascii ''nodes'', JSArray (map node_snapshot nodes)),
                             (ascii ''edges'', JSArray (map edge_snapshot edges))])"
proof -
  from assms have "map (\<lambda>node. json_of (cleanNode node)) nodes = map node_snapshot nodes"
    by (simp add: json_of_cleanNode_finite)
  then show ?thesis by (simp only: parse_exported_document)
qed

theorem exportFlowAsJSON_roundtrip_witness:
  "JSON_parse (dl_content (exportFlowAsJSON
      [\<lparr>node_id = ascii ''node_0'', node_type = Some (ascii ''textNode''),
        position = \<lparr>pos_x = Decimal False 18 3, pos_y = Decimal False 1805 3\<rparr>,
        data = \<lparr>data_text = ascii ''Hello!''\<rparr>, selected = Some True, dragging = Some False\<rparr>,
       \<lparr>node_id = ascii ''node_1'', node_type = None,
        position = \<lparr>pos_x = Decimal True 45 (- 6), pos_y = NegZero\<rparr>,
        data = \<lparr>data_text = [cu (CHR 0x22), CodeUnit (CHR 0xD8) (CHR 0x3D), cu (CHR 0x0A),
                               CodeUnit (CHR 0x26) (CHR 0x3A)]\<rparr>,
        selected = None, dragging = None\<rparr>]
      [\<lparr>edge_id = ascii ''reactflow__edge-node_0source-node_1target'', source = ascii ''node_0'',
        target = ascii ''node_1'', sourceHandle = HStr (ascii ''source''),
        targetHandle = HStr (ascii ''target''),
        edge_selected = Some False, animated = Some False\<rparr>]
      \<lparr>getFullYear = 2026, getMonth = 10, getDate = 2\<rparr>))
   = Some (JSObject
       [(ascii ''nodes'', JSArray
           [JSObject
              [(ascii ''id'', JSString (ascii ''node_0'')),
               (ascii ''type'', JSString (ascii ''textNode'')),
               (ascii ''position'', JSObject [(ascii ''x'', JSNumber (Decimal False 18 3)),
                                              (ascii ''y'', JSNumber (Decimal False 1805 3))]),
               (ascii ''data'', JSObject [(ascii ''text'', JSString (ascii ''Hello!''))])],
            JSObject
              [(ascii ''id'', JSString (ascii ''node_1'')),
               (ascii ''position'', JSObject [(ascii ''x'', JSNumber (Decimal True 45 (- 6))),
                                              (ascii ''y'', JSNumber PosZero)]),
               (ascii ''data'',
                  JSObject [(ascii ''text'',
                     JSString [cu (CHR 0x22), CodeUnit (CHR 0xD8) (CHR 0x3D), cu (CHR 0x0A),
                               CodeUnit (CHR 0x26) (CHR 0x3A)])])]]),
        (ascii ''edges'', JSArray
           [JSObject
              [(ascii ''id'', JSString (ascii ''reactflow__edge-node_0source-node_1target'')),
               (ascii ''source'', JSString (ascii ''node_0'')),
               (ascii ''target'', JSString (ascii ''node_1''))]])])"
  using exportFlowAsJSON_roundtrip
    [of "[\<lparr>node_id = ascii ''node_0'', node_type = Some (ascii ''textNode''),
        position = \<lparr>pos_x = Decimal False 18 3, pos_y = Decimal False 1805 3\<rparr>,
        data = \<lparr>data_text = ascii ''Hello!''\<rparr>, selected = Some True, dragging = Some False\<rparr>,
       \<lparr>node_id = ascii ''node_1'', node_type = None,
        position = \<lparr>pos_x = Decimal True 45 (- 6), pos_y = NegZero\<rparr>,
        data = \<lparr>data_text = [cu (CHR 0x22), CodeUnit (CHR 0xD8) (CHR 0x3D), cu (CHR 0x0A),
                               CodeUnit (CHR 0x26) (CHR 0x3A)]\<rparr>,
        selected = None, dragging = None\<rparr>]"
       "[\<lparr>edge_id = ascii ''reactflow__edge-node_0source-node_1target'', source = ascii ''node_0'',
        target = ascii ''node_1'', sourceHandle = HStr (ascii ''source''),
        targetHandle = HStr (ascii ''target''),
        edge_selected = Some False, animated = Some False\<rparr>]"
       "\<lparr>getFullYear = 2026, getMonth = 10, getDate = 2\<rparr>"]
  by (simp add: node_snapshot_def edge_snapshot_def)

text \<open>
  C10. In the document \<open>exportFlowAsJSON\<close> writes, the object of a node whose type is
  undefined has the keys \<open>id\<close>, \<open>position\<close>, \<open>data\<close> and no \<open>type\<close> key,
  and the object of a node with a type has exactly the keys \<open>id\<close>, \<open>type\<close>,
  \<open>position\<close>, \<open>data\<close>.
\<close>

theorem exportFlowAsJSON_type_key:
  "\<exists>ns es.
     JSON_parse (dl_content (exportFlowAsJSON nodes edges today))
       = Some (JSObject [(ascii ''nodes'', JSArray ns), (ascii ''edges'', JSArray es)])
     \<and> map object_keys ns
       = map (\<lambda>node. case node_type node of
                        None \<Rightarrow> [ascii ''id'', ascii ''position'', ascii ''data'']
                      | Some t \<Rightarrow> [ascii ''id'', ascii ''type'', ascii ''position'', ascii ''data''])
           nodes"
proof -
  have "map object_keys (map (\<lambda>node. json_of (cleanNode node)) nodes)
      = map (\<lambda>node. case node_type node of
                        None \<Rightarrow> [ascii ''id'', ascii ''position'', ascii ''data'']
                      | Some t \<Rightarrow> [ascii ''id'', ascii ''type'', ascii ''position'', ascii ''data''])
          nodes"
    by (simp add: object_keys_cleanNode)
  with parse_exported_document [of nodes edges today] show ?thesis by blast
qed

theorem exportFlowAsJSON_type_key_witness:
  "\<exists>ns es.
     JSON_parse (dl_content (exportFlowAsJSON
        [\<lparr>node_id = ascii ''node_1'', node_type = None,
          position = \<lparr>pos_x = Decimal False 15 2, pos_y = Decimal False 3 2\<rparr>,
          data = \<lparr>data_text = ascii ''a''\<rparr>, selected = None, dragging = None\<rparr>,
         \<lparr>node_id = ascii ''node_2'', node_type = Some (ascii ''textNode''),
          position = \<lparr>pos_x = Decimal False 45 2, pos_y = Decimal False 3 2\<rparr>,
          data = \<lparr>data_text = ascii ''b''\<rparr>, selected = None, dragging = None\<rparr>]
        [] \<lparr>getFullYear = 2026, getMonth = 10, getDate = 2\<rparr>))
       = Some (JSObject [(ascii ''nodes'', JSArray ns), (ascii ''edges'', JSArray es)])
     \<and> map object_keys ns
       = [ascii ''id'', ascii ''position'', ascii ''data'']
           # [ascii ''id'', ascii ''type'', ascii ''position'', ascii ''data''] # []"
  using exportFlowAsJSON_type_key
    [of "[\<lparr>node_id = ascii ''node_1'', node_type = None,
          position = \<lparr>pos_x = Decimal False 15 2, pos_y = Decimal False 3 2\<rparr>,
          data = \<lparr>data_text = ascii ''a''\<rparr>, selected = None, dragging = None\<rparr>,
         \<lparr>node_id = ascii ''node_2'', node_type = Some (ascii ''textNode''),
          position = \<lparr>pos_x = Decimal False 45 2, pos_y = Decimal False 3 2\<rparr>,
          data = \<lparr>data_text = ascii ''b''\<rparr>, selected = None, dragging = None\<rparr>]"
        "[]" "\<lparr>getFullYear = 2026, getMonth = 10, getDate = 2\<rparr>"]
  by simp

text \<open>
  C7. The document \<open>exportFlowAsJSON\<close> writes is laid out with two spaces of
  indentation per level and the fields in the order of the schema (\<open>nodes\<close> before
  \<open>edges\<close>; \<open>id\<close>, \<open>type\<close>, \<open>position\<close>, \<open>data\<close> for a node;
  \<open>id\<close>, \<open>source\<close>, \<open>target\<close> for an edge), and it is saved as
  \<open>chatbot-flow-<year>-<month>-<day>.json\<close> for the current date, the month and the
  day padded with zeros to two digits and the year in decimal, which is four digits for
  the years 1000 to 9999. The hypotheses are the ranges of \<open>getMonth\<close> and
  \<open>getDate\<close>.
\<close>

theorem exportFlowAsJSON_layout:
  assumes "0 \<le> getMonth today" "getMonth today \<le> 11"
    and "1 \<le> getDate today" "getDate today \<le> 31"
  shows "dl_content (exportFlowAsJSON nodes edges today) = document_layout nodes edges
       \<and> dl_filename (exportFlowAsJSON nodes edges today) =
           ''chatbot-flow-'' @ number_to_string (getFullYear today) @ ''-''
             @ two_digits (nat (getMonth today + 1)) @ ''-''
             @ two_digits (nat (getDate today)) @ ''.json''
       \<and> (1000 \<le> getFullYear today \<and> getFullYear today \<le> 9999 \<longrightarrow>
            number_to_string (getFullYear today) = four_digits (nat (getFullYear today)))"
proof -
  have "dl_filename (exportFlowAsJSON nodes edges today)
          = ''chatbot-flow-'' @ getTodayString today @ ''.json''"
    by (simp add: exportFlowAsJSON_def triggerDownload_def Let_def)
  then show ?thesis
    using getTodayString_padded [OF assms] exportFlowAsJSON_content [of nodes edges today]
      number_to_string_year [of "getFullYear today"]
    by simp
qed

theorem exportFlowAsJSON_layout_witness:
  "dl_content (exportFlowAsJSON initialNodes initialEdges
      \<lparr>getFullYear = 2026, getMonth = 10, getDate = 2\<rparr>)
   = ascii ''{'' @ [cu (CHR 0x0A)]
     @ ascii ''  '' @ dq ''nodes'' @ ascii '': ['' @ [cu (CHR 0x0A)]
     @ ascii ''    {'' @ [cu (CHR 0x0A)]
     @ ascii ''      '' @ dq ''id'' @ ascii '': '' @ dq ''node_0'' @ ascii '','' @ [cu (CHR 0x0A)]
     @ ascii ''      '' @ dq ''type'' @ ascii '': '' @ dq ''textNode'' @ ascii '','' @ [cu (CHR 0x0A)]
     @ ascii ''      '' @ dq ''position'' @ ascii '': {'' @ [cu (CHR 0x0A)]
     @ ascii ''        '' @ dq ''x'' @ ascii '': 180,'' @ [cu (CHR 0x0A)]
     @ ascii ''        '' @ dq ''y'' @ ascii '': 180'' @ [cu (CHR 0x0A)]
     @ ascii ''      },'' @ [cu (CHR 0x0A)]
     @ ascii ''      '' @ dq ''data'' @ ascii '': {'' @ [cu (CHR 0x0A)]
     @ ascii ''        '' @ dq ''text'' @ ascii '': '' @ dq ''Hello! How can I help you today?''
       @ [cu (CHR 0x0A)]
     @ ascii ''      }'' @ [cu (CHR 0x0A)]
     @ ascii ''    }'' @ [cu (CHR 0x0A)]
     @ ascii ''  ],'' @ [cu (CHR 0x0A)]
     @ ascii ''  '' @ dq ''edges'' @ ascii '': []'' @ [cu (CHR 0x0A)]
     @ ascii ''}''
   \<and> dl_filename (exportFlowAsJSON initialNodes initialEdges
      \<lparr>getFullYear = 2026, getMonth = 10, getDate = 2\<rparr>) = ''chatbot-flow-2026-11-02.json''"
  using exportFlowAsJSON_layout
    [of "\<lparr>getFullYear = 2026, getMonth = 10, getDate = 2\<rparr>" initialNodes initialEdges]
  by (simp add: document_layout_def array_layout_def node_layout_def initialNodes_def
      initialEdges_def dq_def quoteJSONString_def quote_unit_def is_control_cu not_surrogate_cu
      number_layout_def decimal_text_def Let_def
      number_to_string_def nat_to_string.simps digit_char_def four_digits_def two_digits_def)

end
